theory Spec2Isabelle
  imports Main "HOL-Library.Word"
begin

unbundle bit_operations_syntax

section \<open>Machine types and the byte store\<close>

text \<open>
  The sources are C for an LP64 little-endian POSIX host: \<open>size_t\<close>, \<open>unsigned long\<close>,
  \<open>unsigned long long\<close> and \<open>uint64_t\<close> are 64-bit words whose arithmetic wraps,
  \<open>unsigned char\<close> is an 8-bit word and \<open>pid_t\<close> a 32-bit one.
\<close>

type_synonym u8 = "8 word"
type_synonym u32 = "32 word"
type_synonym u64 = "64 word"

text \<open>
  Memory regions (the \<open>data\<close> member of the shared segment) are explicit stores from
  byte offsets to bytes. A pointer into the region is the offset it points at.
\<close>

type_synonym mem = "nat \<Rightarrow> u8"

fun write_bytes :: "mem \<Rightarrow> nat \<Rightarrow> u8 list \<Rightarrow> mem" where
  "write_bytes m a [] = m"
| "write_bytes m a (b # bs) = write_bytes (m(a := b)) (Suc a) bs"

fun read_bytes :: "mem \<Rightarrow> nat \<Rightarrow> nat \<Rightarrow> u8 list" where
  "read_bytes m a 0 = []"
| "read_bytes m a (Suc n) = m a # read_bytes m (Suc a) n"

text \<open>\<open>memset(p, 0, n)\<close>.\<close>

definition memset0 :: "mem \<Rightarrow> nat \<Rightarrow> nat \<Rightarrow> mem" where
  "memset0 m a n = write_bytes m a (replicate n 0)"

text \<open>A 64-bit object in memory: eight bytes, least significant first.\<close>

definition le_bytes :: "u64 \<Rightarrow> u8 list" where
  "le_bytes w = map (\<lambda>i. ucast (drop_bit (8 * i) w)) [0, 1, 2, 3, 4, 5, 6, 7]"

fun le_word :: "u8 list \<Rightarrow> u64" where
  "le_word [] = 0"
| "le_word (b # bs) = ucast b OR push_bit 8 (le_word bs)"

definition store_u64 :: "mem \<Rightarrow> nat \<Rightarrow> u64 \<Rightarrow> mem" where
  "store_u64 m a w = write_bytes m a (le_bytes w)"

definition load_u64 :: "mem \<Rightarrow> nat \<Rightarrow> u64" where
  "load_u64 m a = le_word (read_bytes m a 8)"

section \<open>The shared-memory ring (shared_memory_ringbuffer.c)\<close>

text \<open>
  \<open>struct shared_memory_ringbuffer_slot\<close> is a \<open>size_t size\<close> followed by the
  16-byte aligned flexible member \<open>data\<close>; its \<open>sizeof\<close>, and the offset of \<open>data\<close>
  in it, is 16.
\<close>

definition sizeof_slot :: u64 where
  "sizeof_slot = 16"

text \<open>
  \<open>struct shared_memory_ringbuffer\<close>. The four scalar members take 32 bytes, so
  \<open>offsetof(struct shared_memory_ringbuffer, data)\<close> is 32.
\<close>

record shared_memory_ringbuffer =
  cursor_wrap :: u64
  max_slot_size :: u64
  writer_cursor :: u64
  writer_pid :: u64
  data :: mem

definition offsetof_data :: nat where
  "offsetof_data = 32"

text \<open>
  \<open>shared_memory_ringbuffer_writer_init\<close>. A failed \<open>assert\<close> aborts the process
  (\<open>None\<close>). The outcome of the three system calls \<open>shm_open\<close>, \<open>ftruncate\<close> and
  \<open>mmap\<close> is the argument \<open>os_ok\<close>; when one of them fails the function returns
  \<open>MAP_FAILED\<close> (\<open>Some None\<close>). The new segment is zero filled by \<open>ftruncate\<close>, and the
  compound literal leaves \<open>writer_cursor\<close> zero.
\<close>

definition shared_memory_ringbuffer_writer_init ::
  "bool \<Rightarrow> u64 \<Rightarrow> u64 \<Rightarrow> u64 \<Rightarrow> shared_memory_ringbuffer option option" where
  "shared_memory_ringbuffer_writer_init os_ok ringbuffer_size packet_size_max pid =
     (if \<not> (ringbuffer_size \<noteq> 0 \<and> ringbuffer_size AND (ringbuffer_size - 1) = 0) then None
      else
        let max_slot = packet_size_max + sizeof_slot;
            total_size = word_of_nat offsetof_data + ringbuffer_size + max_slot
        in if packet_size_max mod 16 \<noteq> 0 then None
           else if total_size mod 16 \<noteq> 0 then None
           else if \<not> os_ok then Some None
           else Some (Some \<lparr>cursor_wrap = ringbuffer_size, max_slot_size = max_slot,
                            writer_cursor = 0, writer_pid = pid, data = (\<lambda>_. 0)\<rparr>))"

text \<open>
  \<open>shared_memory_ringbuffer_acquire\<close>: the offset in \<open>data\<close> of the payload of the slot
  at the writer's cursor. (\<open>cursor_wrap\<close> is not zero in a segment made by
  \<open>shared_memory_ringbuffer_writer_init\<close>; the C remainder by zero is undefined, the one
  of HOL returns the dividend.)
\<close>

definition shared_memory_ringbuffer_acquire :: "shared_memory_ringbuffer \<Rightarrow> nat" where
  "shared_memory_ringbuffer_acquire shm =
     unat (writer_cursor shm mod cursor_wrap shm) + unat sizeof_slot"

text \<open>
  \<open>shared_memory_ringbuffer_send\<close>: store the size prefix, round the slot up to 16 bytes,
  \<open>assert\<close> that it fits (\<open>None\<close> when it does not) and publish the new cursor.
\<close>

definition shared_memory_ringbuffer_send ::
  "shared_memory_ringbuffer \<Rightarrow> u64 \<Rightarrow> shared_memory_ringbuffer option" where
  "shared_memory_ringbuffer_send shm sz =
     (let wc = writer_cursor shm;
          slot = unat (wc mod cursor_wrap shm);
          d = store_u64 (data shm) slot sz;
          size_padded = (sizeof_slot + sz + 15) AND NOT 15
      in if \<not> size_padded \<le> max_slot_size shm then None
         else Some (shm\<lparr>data := d, writer_cursor := wc + size_padded\<rparr>))"

text \<open>\<open>struct shared_memory_ringbuffer_reader\<close>; the segment it points at is passed along.\<close>

record shared_memory_ringbuffer_reader =
  reader_cursor :: u64

text \<open>\<open>shared_memory_ringbuffer_reader_has_kept_up\<close>.\<close>

definition shared_memory_ringbuffer_reader_has_kept_up ::
  "shared_memory_ringbuffer \<Rightarrow> shared_memory_ringbuffer_reader \<Rightarrow> bool" where
  "shared_memory_ringbuffer_reader_has_kept_up shm reader =
     (let wc = writer_cursor shm;
          lag = wc - reader_cursor reader
      in lag + max_slot_size shm \<le> cursor_wrap shm)"

text \<open>
  \<open>shared_memory_ringbuffer_recv\<close>. The segment is shared with a running writer, so the
  function sees it at three moments: \<open>writer_cursor shm\<close> is the first atomic load,
  \<open>data shm\<close> the memory when the size prefix is read, and \<open>wc_after\<close> the second load
  of the cursor. \<open>ret_p\<close> is the caller's pointer variable, \<open>None\<close> for \<open>NULL\<close> and
  \<open>Some off\<close> for \<open>data + off\<close>. The result is the \<open>ssize_t\<close> return value, the
  caller's pointer variable and the reader afterwards.
\<close>

definition shared_memory_ringbuffer_recv ::
  "shared_memory_ringbuffer \<Rightarrow> u64 \<Rightarrow> nat option \<Rightarrow> shared_memory_ringbuffer_reader
     \<Rightarrow> int \<times> nat option \<times> shared_memory_ringbuffer_reader" where
  "shared_memory_ringbuffer_recv shm wc_after ret_p reader =
     (let wc = writer_cursor shm in
      if wc = reader_cursor reader then (0, None, reader)
      else
        let slot = unat (reader_cursor reader mod cursor_wrap shm);
            slot_size = load_u64 (data shm) slot
        in if wc_after + max_slot_size shm - reader_cursor reader - sizeof_slot > cursor_wrap shm
           then (- 1, ret_p, reader)
           else
             let size_padded = (sizeof_slot + slot_size + 15) AND NOT 15
             in (sint slot_size, Some (slot + unat sizeof_slot),
                 reader\<lparr>reader_cursor := reader_cursor reader + size_padded\<rparr>))"

text \<open>
  \<open>shared_memory_ringbuffer_reader_init\<close>. The operating system is an argument: what
  \<open>shm_open\<close> gives (an \<open>errno\<close> or the segment behind the name), whether \<open>fstat\<close> and
  \<open>mmap\<close> succeed, and what \<open>kill(pid, 0)\<close> reports (\<open>None\<close> for success). The
  stored \<open>long\<close> is narrowed to a \<open>pid_t\<close>; \<open>munmap\<close> is taken to leave \<open>errno\<close> as
  \<open>kill\<close> set it.

  When \<open>kill\<close> fails with an errno other than \<open>EPERM\<close> and \<open>ESRCH\<close>, the function has
  unmapped the segment (\<open>munmap(shm, s.st_size)\<close>) before it evaluates \<open>shm->writer_pid\<close>
  as an argument of \<open>fprintf\<close>: the read of the unmapped segment ends the process
  (\<open>Fault\<close>), and the \<open>return MAP_FAILED\<close> that follows is not reached.
\<close>

datatype errno = ENOENT | ESRCH | EPERM | EACCES | EINVAL | ENOMEM

record os_calls =
  shm_open_r :: "errno + shared_memory_ringbuffer"
  fstat_ok :: bool
  mmap_ok :: bool
  kill_r :: "u32 \<Rightarrow> errno option"

datatype reader_init_result =
    Null
  | Map_Failed
  | Fault
  | Reader shared_memory_ringbuffer_reader

definition shared_memory_ringbuffer_reader_init :: "os_calls \<Rightarrow> reader_init_result" where
  "shared_memory_ringbuffer_reader_init os =
     (case shm_open_r os of
        Inl e \<Rightarrow> if e = ENOENT then Null else Map_Failed
      | Inr shm \<Rightarrow>
          if \<not> fstat_ok os then Map_Failed
          else if \<not> mmap_ok os then Map_Failed
          else
            let pid = (ucast (writer_pid shm) :: u32) in
            if pid = 0 then Null
            else
              (case kill_r os pid of
                 Some e \<Rightarrow>
                   if e \<noteq> EPERM then (if e \<noteq> ESRCH then Fault else Null)
                   else Reader \<lparr>reader_cursor = writer_cursor shm\<rparr>
               | None \<Rightarrow> Reader \<lparr>reader_cursor = writer_cursor shm\<rparr>))"

section \<open>The frame decoder (cobs_to_shm.c)\<close>

text \<open>
  The descriptor \<open>fd\<close> is the list of bytes the device still has to deliver. A \<open>read\<close>
  on the exhausted list is a failed read (\<open>-1\<close>), which is how the loss of the serial
  device shows; \<open>readall\<close> of \<open>n\<close> bytes fails in the same way when fewer than \<open>n\<close>
  are left. A failure of the function (its return value \<open>-1\<close>) is \<open>None\<close>.

  The output buffer is held as the list \<open>out\<close> of the bytes stored so far, so that
  \<open>dst - plain\<close> of the source is \<open>length out\<close>; bytes of the buffer beyond \<open>dst\<close>
  are never read by the function, and its caller overwrites or ignores them.
  \<open>warned\<close> counts the "missing end byte" warnings printed to the standard error
  stream. A \<open>read\<close> that returns 0 would leave \<open>code\<close> unset in the C source; it is
  not modelled.
\<close>

record decoded =
  ret :: nat
  plain :: "u8 list"
  source :: "u8 list"
  warned :: nat

function read_escaped_frame_from :: "nat \<Rightarrow> nat \<Rightarrow> u8 list \<Rightarrow> u8 list \<Rightarrow> decoded option" where
  "read_escaped_frame_from max_plain_size w out fd =
     (case fd of
        [] \<Rightarrow> None
      | code # fd1 \<Rightarrow>
          if code = 0 then
            Some \<lparr>ret = (if length out > 0 then length out - 1 else 0),
                  plain = out, source = fd1, warned = w\<rparr>
          else if length out + unat code > max_plain_size then
            (let fd2 = dropWhile (\<lambda>c. c \<noteq> 0) fd1
             in if fd2 = [] then None
                else read_escaped_frame_from max_plain_size (Suc w) [] (tl fd2))
          else if length fd1 < unat code - 1 then None
          else
            (let dst = out @ take (unat code - 1) fd1
             in read_escaped_frame_from max_plain_size w
                  (if code \<noteq> 0xFF then dst @ [0] else dst) (drop (unat code - 1) fd1)))"
  by pat_completeness auto
termination
proof (relation "measure (\<lambda>(m, w, out, fd). length fd)")
  show "wf (measure (\<lambda>(m, w, out, fd). length fd))"
    by simp
next
  fix max_plain_size w :: nat and out fd fd1 fd2 :: "u8 list" and code :: u8
  assume "fd = code # fd1" and "fd2 = dropWhile (\<lambda>c. c \<noteq> 0) fd1"
  moreover have "length (dropWhile (\<lambda>c. c \<noteq> 0) fd1) \<le> length fd1"
    by (rule length_dropWhile_le)
  ultimately show "((max_plain_size, Suc w, [], tl fd2), (max_plain_size, w, out, fd))
      \<in> measure (\<lambda>(m, w, out, fd). length fd)"
    by simp
next
  fix max_plain_size w :: nat and out fd fd1 dst :: "u8 list" and code :: u8
  assume "fd = code # fd1"
  then show "((max_plain_size, w, if code \<noteq> 0xFF then dst @ [0] else dst,
        drop (unat code - 1) fd1), (max_plain_size, w, out, fd))
      \<in> measure (\<lambda>(m, w, out, fd). length fd)"
    by simp
qed

declare read_escaped_frame_from.simps [simp del]

definition read_escaped_frame :: "nat \<Rightarrow> u8 list \<Rightarrow> decoded option" where
  "read_escaped_frame max_plain_size fd = read_escaped_frame_from max_plain_size 0 [] fd"

section \<open>The ingest pipeline (cobs_to_shm.c, main)\<close>

text \<open>
  A log file is known by the staging directory and the second (\<open>T / 1000000\<close>) that
  \<open>strftime\<close> prints into its name; the formatting of the name is not modelled.
\<close>

record log_file =
  name :: "string \<times> u64"
  contents :: "u8 list"

text \<open>
  The variables of \<open>main\<close> that live across iterations (\<open>ring\<close> is the segment
  behind its pointer \<open>shm\<close>), with the lines printed to the
  standard output, the files that were closed and the number of warnings. \<open>fopen\<close> and
  \<open>fwrite\<close> are taken to succeed, and no signal arrives: \<open>got_sigterm_or_sigint\<close>
  stays 0.
\<close>

record logger =
  ring :: shared_memory_ringbuffer
  fh :: "log_file option"
  time_microseconds_file_start :: u64
  packet_time_previous :: u64
  stdout :: "(string \<times> u64) list"
  closed_files :: "log_file list"
  stderr_warnings :: nat

definition logging_header :: "u64 \<Rightarrow> u64 \<Rightarrow> u64" where
  "logging_header packet_time_microseconds packet_size =
     push_bit 16 (packet_time_microseconds div 16) OR packet_size"

definition packet_size_padded :: "u64 \<Rightarrow> u64" where
  "packet_size_padded packet_size = (packet_size + 7) AND NOT 7"

text \<open>The member \<open>packet\<close> of the slot buffer starts 8 bytes after \<open>logging_header\<close>.\<close>

definition packet_of :: "nat \<Rightarrow> nat" where
  "packet_of buf = buf + 8"

text \<open>
  The body of the main loop from the reading of the clock on (the packet is already in
  the slot at \<open>buf\<close>): the clock check, the closing and opening of log files, the header,
  the padding, the commit to the ring and the write to the file.
\<close>

definition handle_packet ::
  "string option \<Rightarrow> u64 \<Rightarrow> nat \<Rightarrow> u64 \<Rightarrow> logger \<Rightarrow> logger option" where
  "handle_packet logging_path packet_time_microseconds buf packet_size st =
     (let st1 = st\<lparr>stderr_warnings :=
                      (if packet_time_previous st > packet_time_microseconds
                       then Suc (stderr_warnings st) else stderr_warnings st),
                    packet_time_previous := packet_time_microseconds\<rparr>;
          rounded_down_to_10s = packet_time_microseconds - packet_time_microseconds mod 10000000;
          st2 = (case fh st1 of
                   Some f \<Rightarrow>
                     if rounded_down_to_10s > time_microseconds_file_start st1
                     then st1\<lparr>closed_files := closed_files st1 @ [f],
                              stdout := stdout st1 @ [name f], fh := None\<rparr>
                     else st1
                 | None \<Rightarrow> st1);
          st3 = (case fh st2 of
                   None \<Rightarrow>
                     (case logging_path of
                        Some dir \<Rightarrow>
                          st2\<lparr>fh := Some \<lparr>name = (dir, packet_time_microseconds div 1000000),
                                            contents = []\<rparr>,
                               time_microseconds_file_start := packet_time_microseconds\<rparr>
                      | None \<Rightarrow> st2)
                 | Some f \<Rightarrow> st2);
          d1 = store_u64 (data (ring st3)) buf (logging_header packet_time_microseconds packet_size);
          padded = packet_size_padded packet_size;
          d2 = (if padded \<noteq> packet_size
                then memset0 d1 (packet_of buf + unat packet_size) (unat (padded - packet_size))
                else d1)
      in case shared_memory_ringbuffer_send ((ring st3)\<lparr>data := d2\<rparr>) (8 + packet_size) of
           None \<Rightarrow> None
         | Some shm' \<Rightarrow>
             Some (st3\<lparr>ring := shm',
                       fh := map_option
                         (\<lambda>f. f\<lparr>contents := contents f @ read_bytes (data shm') buf (unat (8 + padded))\<rparr>)
                         (fh st3)\<rparr>))"

text \<open>What follows the loop: an open file is closed and its path printed.\<close>

definition shutdown :: "logger \<Rightarrow> logger" where
  "shutdown st =
     (case fh st of
        Some f \<Rightarrow> st\<lparr>closed_files := closed_files st @ [f], stdout := stdout st @ [name f],
                      fh := None\<rparr>
      | None \<Rightarrow> st)"

text \<open>
  The loop over whole packets. \<open>clock n\<close> is what \<open>current_time_in_unix_microseconds\<close>
  returns for the \<open>n\<close>-th packet. The decoder writes into the acquired slot; a return
  value of \<open>-1\<close> ends the loop and 0 continues it without a commit. \<open>None\<close> is the abort
  of a failed \<open>assert\<close> in the ring.
\<close>

function main_loop ::
  "string option \<Rightarrow> (nat \<Rightarrow> u64) \<Rightarrow> nat \<Rightarrow> logger \<Rightarrow> u8 list \<Rightarrow> logger option" where
  "main_loop logging_path clock n st fd_serial =
     (let buf = shared_memory_ringbuffer_acquire (ring st)
      in case read_escaped_frame 65528 fd_serial of
           None \<Rightarrow> Some (shutdown st)
         | Some r \<Rightarrow>
             let st1 = st\<lparr>ring := (ring st)\<lparr>data :=
                          write_bytes (data (ring st)) (packet_of buf) (plain r)\<rparr>\<rparr>
             in if ret r = 0 then main_loop logging_path clock n st1 (source r)
                else
                  (case handle_packet logging_path (clock n) buf (word_of_nat (ret r)) st1 of
                     None \<Rightarrow> None
                   | Some st2 \<Rightarrow> main_loop logging_path clock (Suc n) st2 (source r)))"
  by pat_completeness auto
termination
proof -
  have shorter: "read_escaped_frame_from m w out fd = Some r \<Longrightarrow> length (source r) < length fd"
    for m w out fd r
  proof (induction m w out fd rule: read_escaped_frame_from.induct)
    case (1 m w out fd)
    note unf = "1.prems" [unfolded read_escaped_frame_from.simps [of m w out fd]]
    show ?case
    proof (cases fd)
      case Nil
      with unf show ?thesis
        by simp
    next
      case (Cons code fd1)
      have le: "length (dropWhile (\<lambda>c. c \<noteq> 0) fd1) \<le> length fd1"
        by (rule length_dropWhile_le)
      consider (z) "code = 0"
        | (long) "code \<noteq> 0" "length out + unat code > m"
        | (short) "code \<noteq> 0" "\<not> length out + unat code > m" "length fd1 < unat code - 1"
        | (block) "code \<noteq> 0" "\<not> length out + unat code > m" "\<not> length fd1 < unat code - 1"
        by blast
      then show ?thesis
      proof cases
        case z
        with unf Cons show ?thesis
          by auto
      next
        case long
        with unf Cons
        have ne: "dropWhile (\<lambda>c. c \<noteq> 0) fd1 \<noteq> []"
          and rec: "read_escaped_frame_from m (Suc w) [] (tl (dropWhile (\<lambda>c. c \<noteq> 0) fd1)) = Some r"
          by (auto simp add: Let_def split: if_splits)
        from "1.IH"(1) [OF Cons _ _ refl ne rec] long
        have "length (source r) < length (tl (dropWhile (\<lambda>c. c \<noteq> 0) fd1))"
          by simp
        with le Cons show ?thesis
          by simp
      next
        case short
        with unf Cons show ?thesis
          by simp
      next
        case block
        with unf Cons
        have rec: "read_escaped_frame_from m w
            (if code \<noteq> 0xFF then (out @ take (unat code - 1) fd1) @ [0]
             else out @ take (unat code - 1) fd1) (drop (unat code - 1) fd1) = Some r"
          by (auto simp add: Let_def split: if_splits)
        from "1.IH"(2) [OF Cons _ _ _ refl rec] block
        have "length (source r) < length (drop (unat code - 1) fd1)"
          by simp
        with Cons show ?thesis
          by simp
      qed
    qed
  qed
  show ?thesis
  proof (relation "measure (\<lambda>(lp, clock, n, st, fd). length fd)")
    show "wf (measure (\<lambda>(lp, clock, n, st, fd). length fd))"
      by simp
  qed (auto simp add: read_escaped_frame_def dest: shorter)
qed

declare main_loop.simps [simp del]

section \<open>The replay variant (bin_to_shm.c, main)\<close>

text \<open>
  The standard input is the list of bytes still to be read. \<open>fread\<close> of one item of
  \<open>n\<close> bytes returns 1 and consumes them when \<open>n > 0\<close> and at least \<open>n\<close> bytes are
  left; otherwise it returns 0, having consumed (and stored) what was left.

  The inner \<open>do ... while (!logging_header)\<close>: read headers until one is not all zero
  or the input ends. The local \<open>logging_header\<close> is 0 before every \<open>fread\<close>, so a short
  last read leaves it with the bytes read, the missing ones 0.
\<close>

function read_logging_header :: "u8 list \<Rightarrow> u64 \<times> u8 list" where
  "read_logging_header stdin =
     (if length stdin < 8 then (le_word stdin, [])
      else
        let logging_header = le_word (take 8 stdin)
        in if logging_header = 0 then read_logging_header (drop 8 stdin)
           else (logging_header, drop 8 stdin))"
  by pat_completeness auto
termination
  by (relation "measure length") auto

declare read_logging_header.simps [simp del]

text \<open>
  The loop over whole packets. It ends (\<open>break\<close>) when the \<open>fread\<close> of the packet returns
  0. Nothing in the loop stores to \<open>buf->logging_header\<close>: the header read from the
  input stays in the local variable. (A header with a size above 65528 makes the C program
  write past the slot buffer; the logger writes no such header.)
\<close>

function bin_to_shm_loop ::
  "shared_memory_ringbuffer \<Rightarrow> u8 list \<Rightarrow> shared_memory_ringbuffer option" where
  "bin_to_shm_loop shm stdin =
     (let buf = shared_memory_ringbuffer_acquire shm;
          (logging_header, stdin1) = read_logging_header stdin;
          packet_size = logging_header AND 65535;
          padded = packet_size_padded packet_size
      in if padded = 0 \<or> length stdin1 < unat padded
         then Some (shm\<lparr>data := write_bytes (data shm) (packet_of buf)
                                   (if padded = 0 then [] else stdin1)\<rparr>)
         else
           let d1 = write_bytes (data shm) (packet_of buf) (take (unat padded) stdin1);
               d2 = (if padded \<noteq> packet_size
                     then memset0 d1 (packet_of buf + unat packet_size)
                            (unat (padded - packet_size))
                     else d1)
           in case shared_memory_ringbuffer_send (shm\<lparr>data := d2\<rparr>) (8 + packet_size) of
                None \<Rightarrow> None
              | Some shm' \<Rightarrow> bin_to_shm_loop shm' (drop (unat padded) stdin1))"
  by pat_completeness auto
termination
proof -
  have le: "length (snd (read_logging_header s)) \<le> length s" for s
  proof (induction s rule: read_logging_header.induct)
    case (1 stdin)
    show ?case
    proof (cases "length stdin < 8")
      case True
      then show ?thesis
        by (simp add: read_logging_header.simps [of stdin])
    next
      case False
      show ?thesis
      proof (cases "le_word (take 8 stdin) = 0")
        case True
        with False "1.IH" [OF False refl True]
        show ?thesis
          by (simp add: read_logging_header.simps [of stdin])
      next
        case nz: False
        with False show ?thesis
          by (simp add: read_logging_header.simps [of stdin] Let_def)
      qed
    qed
  qed
  show ?thesis
  proof (relation "measure (\<lambda>(shm, stdin). length stdin)")
    show "wf (measure (\<lambda>(shm, stdin). length stdin))"
      by simp
  next
    fix shm :: shared_memory_ringbuffer and stdin stdin1 :: "u8 list"
      and x :: "u64 \<times> u8 list" and logging_header packet_size padded :: u64
    assume x: "x = read_logging_header stdin" "(logging_header, stdin1) = x"
      and p: "\<not> (padded = 0 \<or> length stdin1 < unat padded)"
    from x have "stdin1 = snd (read_logging_header stdin)"
      by (metis snd_conv)
    with le [of stdin] have "length stdin1 \<le> length stdin"
      by simp
    moreover from p have "0 < unat padded"
      by (simp add: unat_gt_0)
    moreover from p have "unat padded \<le> length stdin1"
      by simp
    ultimately have "length (drop (unat padded) stdin1) < length stdin"
      by simp
    then show "\<And>shm'. ((shm', drop (unat padded) stdin1), (shm, stdin))
        \<in> measure (\<lambda>(shm, stdin). length stdin)"
      by simp
  qed
qed

declare bin_to_shm_loop.simps [simp del]

section \<open>The documented quantities the code is compared with\<close>

text \<open>Rounding up to the next multiple of 16 and of 8, on the natural numbers.\<close>

definition round_up_16 :: "nat \<Rightarrow> nat" where
  "round_up_16 n = ((n + 15) div 16) * 16"

definition round_up_8 :: "nat \<Rightarrow> nat" where
  "round_up_8 n = ((n + 7) div 8) * 8"

text \<open>The two fields of the frame header.\<close>

definition low_16 :: "u64 \<Rightarrow> u64" where
  "low_16 h = h AND 0xFFFF"

definition high_48 :: "u64 \<Rightarrow> u64" where
  "high_48 h = drop_bit 16 h"

text \<open>
  The documented wire format. A frame is a sequence of blocks; a block is given by its
  data bytes \<open>b\<close>, at most 254 of them and none zero, and goes on the wire as the count
  byte \<open>k = length b + 1\<close> followed by \<open>b\<close>. A zero byte ends the frame. Between
  consecutive blocks a zero byte of payload is implied, unless the earlier block has
  \<open>k = 0xFF\<close>.
\<close>

definition wire_block_ok :: "u8 list \<Rightarrow> bool" where
  "wire_block_ok b = (length b \<le> 254 \<and> 0 \<notin> set b)"

definition wire_of_blocks :: "u8 list list \<Rightarrow> u8 list" where
  "wire_of_blocks bs = concat (map (\<lambda>b. word_of_nat (length b + 1) # b) bs) @ [0]"

fun payload_of_blocks :: "u8 list list \<Rightarrow> u8 list" where
  "payload_of_blocks [] = []"
| "payload_of_blocks [b] = b"
| "payload_of_blocks (b # b' # bs) =
     b @ (if length b = 254 then [] else [0]) @ payload_of_blocks (b' # bs)"

text \<open>
  The segment both programs create: \<open>shared_memory_ringbuffer_writer_init("/cobs_to_shm",
  4194304, sizeof(*buf))\<close> with \<open>sizeof(*buf) = 8 + 65528\<close>, here for a writer of
  process id 1.
\<close>

definition cobs_ring :: shared_memory_ringbuffer where
  "cobs_ring = \<lparr>cursor_wrap = 4194304, max_slot_size = 65552, writer_cursor = 0,
                 writer_pid = 1, data = (\<lambda>_. 0)\<rparr>"

text \<open>
  The segment after \<open>shared_memory_ringbuffer_send(shm, 10)\<close> on the new segment: one
  slot with the size prefix 10 (a header and a packet of two bytes), the cursor at 32.
\<close>

definition ring_with_slot :: shared_memory_ringbuffer where
  "ring_with_slot = cobs_ring\<lparr>data := store_u64 (data cobs_ring) 0 10, writer_cursor := 32\<rparr>"

text \<open>An operating system that answers every \<open>kill\<close> with \<open>k\<close>.\<close>

definition os_with :: "errno + shared_memory_ringbuffer \<Rightarrow> bool \<Rightarrow> errno option \<Rightarrow> os_calls" where
  "os_with r ok k = \<lparr>shm_open_r = r, fstat_ok = ok, mmap_ok = ok, kill_r = (\<lambda>_. k)\<rparr>"

text \<open>
  The segment after \<open>shared_memory_ringbuffer_send(shm, 0)\<close> on the new segment: one
  slot with the size prefix 0, the cursor at 16.
\<close>

definition ring_with_empty_slot :: shared_memory_ringbuffer where
  "ring_with_empty_slot = cobs_ring\<lparr>data := store_u64 (data cobs_ring) 0 0, writer_cursor := 16\<rparr>"

text \<open>
  The documented keep-up test, in the words of the specification: true iff
  \<open>writer_cursor - (reader_cursor - last_slot_span) + max_slot_size \<le> cursor_wrap\<close>,
  where \<open>last_slot_span\<close> is what the last receive advanced the reader by.
\<close>

definition kept_up_documented ::
  "shared_memory_ringbuffer \<Rightarrow> shared_memory_ringbuffer_reader \<Rightarrow> u64 \<Rightarrow> bool" where
  "kept_up_documented shm reader last_slot_span =
     (writer_cursor shm - (reader_cursor reader - last_slot_span) + max_slot_size shm
        \<le> cursor_wrap shm)"

text \<open>
  A reader attached at cursor 65552 and a writer that then commits a slot of size 10
  there (\<open>ring_before_lap\<close>), and the same segment once the writer's cursor has gone on
  to 4194336, one ring and 32 bytes further than the reader's slot (\<open>ring_after_lap\<close>).
\<close>

definition ring_before_lap :: shared_memory_ringbuffer where
  "ring_before_lap =
     cobs_ring\<lparr>data := store_u64 (data cobs_ring) 65552 10, writer_cursor := 65584\<rparr>"

definition ring_after_lap :: shared_memory_ringbuffer where
  "ring_after_lap = ring_before_lap\<lparr>writer_cursor := 4194336\<rparr>"

text \<open>The payload a caller takes from the decoder: the first \<open>ret\<close> bytes of the buffer.\<close>

definition frame_payload :: "decoded \<Rightarrow> u8 list" where
  "frame_payload r = take (ret r) (plain r)"

text \<open>The variables of \<open>main\<close> before the loop, on the new segment.\<close>

definition fresh_logger :: logger where
  "fresh_logger = \<lparr>ring = cobs_ring, fh = None, time_microseconds_file_start = 0,
     packet_time_previous = 0, stdout = [], closed_files = [], stderr_warnings = 0\<rparr>"

text \<open>\<open>n\<close> bytes of the segment's \<open>data\<close> from offset \<open>off\<close>.\<close>

definition slot_bytes :: "shared_memory_ringbuffer \<Rightarrow> nat \<Rightarrow> nat \<Rightarrow> u8 list" where
  "slot_bytes shm off n = read_bytes (data shm) off n"

text \<open>
  One record of a log file: the header of a packet of 2 bytes stamped at 17 microseconds,
  the packet "AB" and six bytes of padding.
\<close>

definition logged_record :: "u8 list" where
  "logged_record = [2, 0, 1, 0, 0, 0, 0, 0, 65, 66, 0, 0, 0, 0, 0, 0]"

text \<open>
  The serial ingest of the frame \<open>03 41 42 00\<close> at time 17 with logging enabled, and the
  replay of the record it logs.
\<close>

definition ingest_logger :: "logger option" where
  "ingest_logger = main_loop (Some ''/dev/shm'') (\<lambda>_. 17) 0 fresh_logger [3, 65, 66, 0]"

definition replayed_ring :: "shared_memory_ringbuffer option" where
  "replayed_ring = bin_to_shm_loop cobs_ring logged_record"


text \<open>
  A sequence of \<open>shared_memory_ringbuffer_send\<close> calls; a size is valid when the
  \<open>assert\<close> of the call passes.
\<close>

fun sends :: "shared_memory_ringbuffer \<Rightarrow> u64 list \<Rightarrow> shared_memory_ringbuffer option" where
  "sends shm [] = Some shm"
| "sends shm (n # ns) =
     (case shared_memory_ringbuffer_send shm n of
        None \<Rightarrow> None
      | Some shm' \<Rightarrow> sends shm' ns)"

text \<open>Every log file, open or closed, has a length that is a multiple of 8.\<close>

definition log_aligned :: "logger \<Rightarrow> bool" where
  "log_aligned st =
     ((case fh st of None \<Rightarrow> True | Some f \<Rightarrow> length (contents f) mod 8 = 0) \<and>
      list_all (\<lambda>f. length (contents f) mod 8 = 0) (closed_files st))"

text \<open>
  What the decoder stores for a sequence of blocks: after every block that is not
  maximal a zero byte, the last block included.
\<close>

fun decoded_of_blocks :: "u8 list list \<Rightarrow> u8 list" where
  "decoded_of_blocks [] = []"
| "decoded_of_blocks (b # bs) = b @ (if length b = 254 then [] else [0]) @ decoded_of_blocks bs"

section \<open>Facts about the byte store and the rounding\<close>

lemma cobs_ring_init:
  "shared_memory_ringbuffer_writer_init True 4194304 65536 1 = Some (Some cobs_ring)"
  by (simp add: shared_memory_ringbuffer_writer_init_def cobs_ring_def sizeof_slot_def
      offsetof_data_def)


lemma byte_split:
  "ucast (ucast (w :: u64) :: u8) OR push_bit 8 (take_bit n (drop_bit 8 w)) = take_bit (8 + n) w"
  by (rule bit_eqI) (auto simp add: bit_simps)

lemma le_word_bytes_upt:
  "le_word (map (\<lambda>i. ucast (drop_bit (8 * i) w)) [0..<k]) = take_bit (8 * k) (w :: u64)"
proof (induction k arbitrary: w)
  case 0
  then show ?case by simp
next
  case (Suc k)
  have "map (\<lambda>i. (ucast (drop_bit (8 * i) w) :: u8)) [0..<Suc k]
      = ucast w # map (\<lambda>i. ucast (drop_bit (8 * i) (drop_bit 8 w))) [0..<k]"
    by (simp add: upt_conv_Cons map_Suc_upt [symmetric] add.commute del: upt_Suc)
  then show ?case
    using Suc.IH [of "drop_bit 8 w"] byte_split [of w "8 * k"] by simp
qed

lemma le_word_le_bytes: "le_word (le_bytes w) = w"
proof -
  have "[0, 1, 2, 3, 4, 5, 6, 7] = [0..<8]"
    by (simp add: upt_rec)
  then have "le_bytes w = map (\<lambda>i. ucast (drop_bit (8 * i) w)) [0..<8]"
    by (simp only: le_bytes_def)
  then show ?thesis
    using le_word_bytes_upt [of w 8] take_bit_length_eq [of w] by simp
qed

lemma write_bytes_outside: "i < a \<or> a + length bs \<le> i \<Longrightarrow> write_bytes m a bs i = m i"
  by (induction bs arbitrary: m a) auto

lemma write_bytes_inside: "i < length bs \<Longrightarrow> write_bytes m a bs (a + i) = bs ! i"
proof (induction bs arbitrary: m a i)
  case Nil
  then show ?case by simp
next
  case (Cons b bs)
  show ?case
  proof (cases i)
    case 0
    then show ?thesis by (simp add: write_bytes_outside)
  next
    case (Suc j)
    with Cons.prems have "j < length bs" by simp
    then have "write_bytes (m(a := b)) (Suc a) bs (Suc a + j) = bs ! j"
      by (rule Cons.IH)
    with Suc show ?thesis by simp
  qed
qed

lemma read_bytes_nth: "i < n \<Longrightarrow> read_bytes m a n ! i = m (a + i)"
proof (induction n arbitrary: a i)
  case 0
  then show ?case by simp
next
  case (Suc n)
  then show ?case by (cases i) auto
qed

lemma length_read_bytes [simp]: "length (read_bytes m a n) = n"
  by (induction n arbitrary: a) auto

lemma read_write_same: "read_bytes (write_bytes m a bs) a (length bs) = bs"
  by (rule nth_equalityI) (simp_all add: read_bytes_nth write_bytes_inside)

lemma length_le_bytes [simp]: "length (le_bytes w) = 8"
  by (simp add: le_bytes_def)

lemma load_store_same: "load_u64 (store_u64 m a w) a = w"
  using read_write_same [of m a "le_bytes w"]
  by (simp add: load_u64_def store_u64_def le_word_le_bytes)

lemma fifteen_mask: "(15 :: u64) = mask 4"
  by (simp add: mask_eq_exp_minus_1)

lemma and_not_15_shift: "(x :: u64) AND NOT 15 = push_bit 4 (drop_bit 4 x)"
  unfolding fifteen_mask by (rule bit_eqI) (auto simp add: bit_simps)

lemma and_not_15: "(x :: u64) AND NOT 15 = x - x mod 16"
proof -
  have "x AND NOT 15 = (x div 16) * 16"
    unfolding and_not_15_shift by (simp add: drop_bit_eq_div push_bit_eq_mult)
  moreover have "(x div 16) * 16 + x mod 16 = x"
    by (rule div_mult_mod_eq)
  ultimately show ?thesis
    by (metis add_diff_cancel_right')
qed

lemma word_mod_16: "(word_of_nat n :: u64) mod 16 = word_of_nat (n mod 16)"
proof -
  have "unat ((word_of_nat n :: u64) mod 16) = (n mod 2 ^ 64) mod 16"
    by (simp add: unat_mod unat_of_nat)
  also have "\<dots> = n mod 16"
    by (rule mod_mod_cancel) simp
  finally have "unat ((word_of_nat n :: u64) mod 16) = n mod 16" .
  moreover have "unat (word_of_nat (n mod 16) :: u64) = n mod 16"
    by (simp add: unat_of_nat)
  ultimately show ?thesis
    by (simp only: word_unat_eq_iff)
qed

lemma round_up_16_word:
  "(word_of_nat n + 15 :: u64) AND NOT 15 = word_of_nat (round_up_16 n)"
proof -
  let ?N = "n + 15"
  have eq: "(?N div 16) * 16 = ?N - ?N mod 16"
    by (simp add: minus_mod_eq_div_mult)
  have "(word_of_nat (?N - ?N mod 16) :: u64) = word_of_nat ?N - word_of_nat (?N mod 16)"
    by (rule of_nat_diff) (rule mod_less_eq_dividend)
  also have "\<dots> = word_of_nat ?N - (word_of_nat ?N) mod 16"
    by (simp only: word_mod_16)
  also have "\<dots> = (word_of_nat ?N) AND NOT 15"
    by (simp only: and_not_15)
  finally show ?thesis
    by (simp add: round_up_16_def eq)
qed

lemma size_padded_round_up:
  "(sizeof_slot + s + 15) AND NOT 15 = word_of_nat (round_up_16 (16 + unat s))"
  using round_up_16_word [of "16 + unat s"] by (simp add: sizeof_slot_def)

section \<open>The reader side of the ring\<close>

text \<open>
  C2. \<open>shared_memory_ringbuffer_recv\<close> has three outcomes. When the cursor loaded first
  equals \<open>reader_cursor\<close> it returns 0 with a null pointer and the reader as it was.
  Otherwise it reads the size \<open>s\<close> stored at \<open>reader_cursor mod cursor_wrap\<close>; when the
  cursor loaded afterwards has \<open>wc_after + max_slot_size - reader_cursor - 16 >
  cursor_wrap\<close> (in 64-bit unsigned arithmetic) it returns \<open>-1\<close>, and otherwise it returns
  \<open>s\<close> (as an \<open>ssize_t\<close>) and the pointer to the payload, 16 bytes after the prefix, and
  advances \<open>reader_cursor\<close> by \<open>16 + s\<close> rounded up to a multiple of 16.
\<close>

theorem recv_behaviour:
  "(writer_cursor shm = reader_cursor reader \<longrightarrow>
      shared_memory_ringbuffer_recv shm wc_after ret_p reader = (0, None, reader)) \<and>
   (writer_cursor shm \<noteq> reader_cursor reader \<and>
    wc_after + max_slot_size shm - reader_cursor reader - 16 > cursor_wrap shm \<longrightarrow>
      shared_memory_ringbuffer_recv shm wc_after ret_p reader = (- 1, ret_p, reader)) \<and>
   (writer_cursor shm \<noteq> reader_cursor reader \<and>
    \<not> wc_after + max_slot_size shm - reader_cursor reader - 16 > cursor_wrap shm \<longrightarrow>
      shared_memory_ringbuffer_recv shm wc_after ret_p reader =
        (let slot = unat (reader_cursor reader mod cursor_wrap shm);
             s = load_u64 (data shm) slot
         in (sint s, Some (slot + 16),
             reader\<lparr>reader_cursor :=
               reader_cursor reader + word_of_nat (round_up_16 (16 + unat s))\<rparr>)))"
  unfolding shared_memory_ringbuffer_recv_def Let_def size_padded_round_up
  by (simp add: sizeof_slot_def)

lemma ring_with_slot_sent: "shared_memory_ringbuffer_send cobs_ring 10 = Some ring_with_slot"
  by (simp add: shared_memory_ringbuffer_send_def ring_with_slot_def cobs_ring_def sizeof_slot_def)

text \<open>
  The three outcomes of C2 on the new segment: caught up, lapped by a whole ring, and one
  slot of size 10 to read.
\<close>

theorem recv_behaviour_witness:
  "shared_memory_ringbuffer_recv cobs_ring 0 None \<lparr>reader_cursor = 0\<rparr>
     = (0, None, \<lparr>reader_cursor = 0\<rparr>) \<and>
   shared_memory_ringbuffer_recv (cobs_ring\<lparr>writer_cursor := 4194304\<rparr>) 4194304 None
       \<lparr>reader_cursor = 0\<rparr>
     = (- 1, None, \<lparr>reader_cursor = 0\<rparr>) \<and>
   shared_memory_ringbuffer_recv ring_with_slot 32 None \<lparr>reader_cursor = 0\<rparr>
     = (10, Some 16, \<lparr>reader_cursor = 32\<rparr>)"
proof -
  have a: "shared_memory_ringbuffer_recv cobs_ring 0 None \<lparr>reader_cursor = 0\<rparr>
     = (0, None, \<lparr>reader_cursor = 0\<rparr>)"
    using recv_behaviour [of cobs_ring "\<lparr>reader_cursor = 0\<rparr>" 0 None]
    by (simp add: cobs_ring_def)
  have b: "shared_memory_ringbuffer_recv (cobs_ring\<lparr>writer_cursor := 4194304\<rparr>) 4194304 None
       \<lparr>reader_cursor = 0\<rparr> = (- 1, None, \<lparr>reader_cursor = 0\<rparr>)"
    using recv_behaviour [of "cobs_ring\<lparr>writer_cursor := 4194304\<rparr>" "\<lparr>reader_cursor = 0\<rparr>"
        4194304 None]
    by (simp add: cobs_ring_def)
  have "load_u64 (data ring_with_slot) 0 = 10"
    by (simp add: ring_with_slot_def load_store_same)
  then have c: "shared_memory_ringbuffer_recv ring_with_slot 32 None \<lparr>reader_cursor = 0\<rparr>
     = (10, Some 16, \<lparr>reader_cursor = 32\<rparr>)"
    using recv_behaviour [of ring_with_slot "\<lparr>reader_cursor = 0\<rparr>" 32 None]
    by (simp add: ring_with_slot_def cobs_ring_def round_up_16_def)
  from a b c show ?thesis by simp
qed

text \<open>
  The paths of \<open>shared_memory_ringbuffer_reader_init\<close> that return: \<open>NULL\<close> when
  \<open>shm_open\<close> reports \<open>ENOENT\<close>, when the mapped segment has \<open>writer_pid\<close> zero, and when
  \<open>kill(pid, 0)\<close> reports \<open>ESRCH\<close>; \<open>MAP_FAILED\<close> when \<open>shm_open\<close> fails otherwise and
  when \<open>fstat\<close> or \<open>mmap\<close> fails. When the writer is alive (\<open>kill\<close> succeeds or reports
  \<open>EPERM\<close>) the reader starts with \<open>reader_cursor\<close> equal to the segment's
  \<open>writer_cursor\<close>.
\<close>

lemma reader_init_paths:
  "(shm_open_r os = Inl ENOENT \<longrightarrow> shared_memory_ringbuffer_reader_init os = Null) \<and>
   (shm_open_r os = Inr shm \<and> fstat_ok os \<and> mmap_ok os \<and> writer_pid shm = 0 \<longrightarrow>
      shared_memory_ringbuffer_reader_init os = Null) \<and>
   (shm_open_r os = Inr shm \<and> fstat_ok os \<and> mmap_ok os \<and> ucast (writer_pid shm) \<noteq> (0 :: u32) \<and>
    kill_r os (ucast (writer_pid shm)) = Some ESRCH \<longrightarrow>
      shared_memory_ringbuffer_reader_init os = Null) \<and>
   (shm_open_r os = Inl e \<and> e \<noteq> ENOENT \<longrightarrow> shared_memory_ringbuffer_reader_init os = Map_Failed) \<and>
   (shm_open_r os = Inr shm \<and> (\<not> fstat_ok os \<or> \<not> mmap_ok os) \<longrightarrow>
      shared_memory_ringbuffer_reader_init os = Map_Failed) \<and>
   (shm_open_r os = Inr shm \<and> fstat_ok os \<and> mmap_ok os \<and> ucast (writer_pid shm) \<noteq> (0 :: u32) \<and>
    kill_r os (ucast (writer_pid shm)) \<in> {None, Some EPERM} \<longrightarrow>
      shared_memory_ringbuffer_reader_init os = Reader \<lparr>reader_cursor = writer_cursor shm\<rparr>)"
  by (auto simp add: shared_memory_ringbuffer_reader_init_def Let_def split: sum.splits option.splits if_splits)

text \<open>
  C8. On the path left, the function does not return \<open>MAP_FAILED\<close>. With the segment
  \<open>ring_with_slot\<close> behind the name (its \<open>writer_pid\<close> is 1), \<open>fstat\<close> and \<open>mmap\<close>
  succeeding and \<open>kill(1, 0)\<close> failing with \<open>EINVAL\<close>, it unmaps the segment and then
  reads \<open>shm->writer_pid\<close> from it for the error message. On the same segment a \<open>kill\<close>
  that reports \<open>ESRCH\<close> gives \<open>NULL\<close>, a failing \<open>mmap\<close> gives \<open>MAP_FAILED\<close>, and a
  successful \<open>kill\<close> gives a reader at the writer's cursor, 32.
\<close>

theorem reader_init_reads_unmapped_segment:
  "shared_memory_ringbuffer_reader_init (os_with (Inr ring_with_slot) True (Some EINVAL)) = Fault \<and>
   shared_memory_ringbuffer_reader_init (os_with (Inr ring_with_slot) True (Some ESRCH)) = Null \<and>
   shared_memory_ringbuffer_reader_init (os_with (Inr ring_with_slot) False None) = Map_Failed \<and>
   shared_memory_ringbuffer_reader_init (os_with (Inr ring_with_slot) True None)
     = Reader \<lparr>reader_cursor = 32\<rparr>"
  by (simp add: shared_memory_ringbuffer_reader_init_def os_with_def ring_with_slot_def
      cobs_ring_def)

text \<open>
  C3. The documented test subtracts the span of the slot just read from the reader's
  cursor; \<open>shared_memory_ringbuffer_reader_has_kept_up\<close> uses the cursor as the receive
  left it, after the advance. Here the reader receives the slot of size 10 at 65552 (its
  payload at 65568, its cursor then 65584, a span of 32) and the writer's cursor is
  4194336: the function answers 1, the documented test answers no, and the payload
  region the writer has acquired, \<open>[48, 48 + 65536)\<close>, holds the ten bytes at 65568
  that the reader was handed.
\<close>

theorem has_kept_up_accepts_lapped_slot:
  "shared_memory_ringbuffer_recv ring_before_lap 65584 None \<lparr>reader_cursor = 65552\<rparr>
     = (10, Some 65568, \<lparr>reader_cursor = 65584\<rparr>) \<and>
   shared_memory_ringbuffer_reader_has_kept_up ring_after_lap \<lparr>reader_cursor = 65584\<rparr> \<and>
   \<not> kept_up_documented ring_after_lap \<lparr>reader_cursor = 65584\<rparr> 32 \<and>
   shared_memory_ringbuffer_acquire ring_after_lap \<le> 65568 \<and>
   65568 + 10 \<le> shared_memory_ringbuffer_acquire ring_after_lap + 65536"
proof -
  have "load_u64 (data ring_before_lap) 65552 = 10"
    by (simp add: ring_before_lap_def load_store_same)
  then have "shared_memory_ringbuffer_recv ring_before_lap 65584 None \<lparr>reader_cursor = 65552\<rparr>
     = (10, Some 65568, \<lparr>reader_cursor = 65584\<rparr>)"
    by (simp add: shared_memory_ringbuffer_recv_def ring_before_lap_def cobs_ring_def
        sizeof_slot_def)
  moreover have "shared_memory_ringbuffer_reader_has_kept_up ring_after_lap \<lparr>reader_cursor = 65584\<rparr>"
    by (simp add: shared_memory_ringbuffer_reader_has_kept_up_def ring_after_lap_def
        ring_before_lap_def cobs_ring_def)
  moreover have "\<not> kept_up_documented ring_after_lap \<lparr>reader_cursor = 65584\<rparr> 32"
    by (simp add: kept_up_documented_def ring_after_lap_def ring_before_lap_def cobs_ring_def)
  moreover have "shared_memory_ringbuffer_acquire ring_after_lap = 48"
    by (simp add: shared_memory_ringbuffer_acquire_def ring_after_lap_def ring_before_lap_def
        cobs_ring_def sizeof_slot_def)
  ultimately show ?thesis by simp
qed

lemma ring_with_empty_slot_sent:
  "shared_memory_ringbuffer_send cobs_ring 0 = Some ring_with_empty_slot"
  by (simp add: shared_memory_ringbuffer_send_def ring_with_empty_slot_def cobs_ring_def sizeof_slot_def)






section \<open>The frame header\<close>

text \<open>
  C5, as stated, fails: the header keeps the time in units of 16 microseconds, so a time
  that is not a multiple of 16 does not come back. For \<open>T = 17\<close> the upper 48 bits
  times 16 are 16.
\<close>

theorem header_time_not_exact: "high_48 (logging_header 17 2) * 16 \<noteq> 17"
  by (simp add: high_48_def logging_header_def)

lemma ffff_mask: "(0xFFFF :: u64) = mask 16"
  by (simp add: mask_eq_exp_minus_1)

lemma drop_push_16: "drop_bit 16 (push_bit 16 (x :: u64)) = take_bit 48 x"
  by (rule bit_eqI) (auto simp add: bit_simps)

text \<open>
  C5, amended. For a packet size of at most 65528 and a time \<open>T\<close> below \<open>2^52\<close>
  microseconds, the low 16 bits of the header are the packet size, and the upper 48 bits
  times 16 are \<open>T\<close> rounded down to a multiple of 16.
\<close>

theorem logging_header_fields:
  assumes "packet_size \<le> 65528" and "T < 2 ^ 52"
  shows "low_16 (logging_header T packet_size) = packet_size \<and>
         high_48 (logging_header T packet_size) * 16 = T - T mod 16"
proof -
  from assms(1) have "packet_size < 2 ^ 16"
    by (simp add: word_less_nat_alt word_le_nat_alt)
  then have ps: "take_bit 16 packet_size = packet_size"
    by (simp add: take_bit_eq_mask less_mask_eq)
  then have dps: "drop_bit 16 packet_size = 0"
    by (simp add: take_bit_eq_self_iff_drop_bit_eq_0)
  have "unat (T div 16) < 2 ^ 48"
    using assms(2) by (simp add: unat_div word_less_nat_alt)
  then have "T div 16 < 2 ^ 48"
    by (simp add: word_less_nat_alt)
  then have tt: "take_bit 48 (T div 16) = T div 16"
    by (simp add: take_bit_eq_mask less_mask_eq)
  have low: "low_16 (logging_header T packet_size) = packet_size"
    unfolding low_16_def logging_header_def ffff_mask
    by (simp add: take_bit_eq_mask [symmetric] ps take_bit_push_bit bit.conj_disj_distrib2)
  have "high_48 (logging_header T packet_size) = T div 16"
    unfolding high_48_def logging_header_def
    by (simp add: drop_bit_or dps drop_push_16 tt)
  moreover have "T div 16 * 16 = T - T mod 16"
    by (simp add: minus_mod_eq_div_mult)
  ultimately show ?thesis
    using low by simp
qed

theorem logging_header_fields_witness:
  "(2 :: u64) \<le> 65528 \<and> (17 :: u64) < 2 ^ 52 \<and>
   low_16 (logging_header 17 2) = 2 \<and> high_48 (logging_header 17 2) * 16 = 16"
  using logging_header_fields [of 2 17] by simp

section \<open>The frame decoder\<close>

text \<open>The branches of \<open>read_escaped_frame\<close>, one equation each.\<close>

lemma decoder_eof: "read_escaped_frame_from m w out [] = None"
  by (subst read_escaped_frame_from.simps) simp

lemma decoder_end:
  "read_escaped_frame_from m w out (0 # fd1)
     = Some \<lparr>ret = (if length out > 0 then length out - 1 else 0), plain = out, source = fd1,
             warned = w\<rparr>"
  by (subst read_escaped_frame_from.simps) simp

lemma decoder_too_long:
  "code \<noteq> 0 \<Longrightarrow> length out + unat code > m \<Longrightarrow>
   read_escaped_frame_from m w out (code # fd1)
     = (if dropWhile (\<lambda>c. c \<noteq> 0) fd1 = [] then None
        else read_escaped_frame_from m (Suc w) [] (tl (dropWhile (\<lambda>c. c \<noteq> 0) fd1)))"
  by (subst read_escaped_frame_from.simps) (simp add: Let_def)

lemma decoder_short:
  "code \<noteq> 0 \<Longrightarrow> \<not> length out + unat code > m \<Longrightarrow> length fd1 < unat code - 1 \<Longrightarrow>
   read_escaped_frame_from m w out (code # fd1) = None"
  by (subst read_escaped_frame_from.simps) simp

lemma decoder_block:
  "code \<noteq> 0 \<Longrightarrow> \<not> length out + unat code > m \<Longrightarrow> \<not> length fd1 < unat code - 1 \<Longrightarrow>
   read_escaped_frame_from m w out (code # fd1)
     = read_escaped_frame_from m w
         (if code \<noteq> 0xFF then (out @ take (unat code - 1) fd1) @ [0]
          else out @ take (unat code - 1) fd1)
         (drop (unat code - 1) fd1)"
  by (subst read_escaped_frame_from.simps) (simp add: Let_def split del: if_split cong: if_cong)

lemma warned_shift:
  "read_escaped_frame_from m (w + k) out fd
     = map_option (\<lambda>r. r\<lparr>warned := warned r + k\<rparr>) (read_escaped_frame_from m w out fd)"
proof (induction m w out fd rule: read_escaped_frame_from.induct)
  case (1 m w out fd)
  show ?case
  proof (cases fd)
    case Nil
    then show ?thesis
      by (simp add: decoder_eof)
  next
    case (Cons code fd1)
    consider (z) "code = 0"
      | (long) "code \<noteq> 0" "length out + unat code > m" "dropWhile (\<lambda>c. c \<noteq> 0) fd1 = []"
      | (long2) "code \<noteq> 0" "length out + unat code > m" "dropWhile (\<lambda>c. c \<noteq> 0) fd1 \<noteq> []"
      | (short) "code \<noteq> 0" "\<not> length out + unat code > m" "length fd1 < unat code - 1"
      | (block) "code \<noteq> 0" "\<not> length out + unat code > m" "\<not> length fd1 < unat code - 1"
      by blast
    then show ?thesis
    proof cases
      case z
      with Cons show ?thesis
        by (simp add: decoder_end)
    next
      case long
      with Cons show ?thesis
        by (simp add: decoder_too_long)
    next
      case long2
      from "1.IH"(1) [OF Cons _ _ refl] long2
      have "read_escaped_frame_from m (Suc w + k) [] (tl (dropWhile (\<lambda>c. c \<noteq> 0) fd1))
          = map_option (\<lambda>r. r\<lparr>warned := warned r + k\<rparr>)
              (read_escaped_frame_from m (Suc w) [] (tl (dropWhile (\<lambda>c. c \<noteq> 0) fd1)))"
        by simp
      with Cons long2 show ?thesis
        by (auto simp add: decoder_too_long)
    next
      case short
      with Cons show ?thesis
        by (simp add: decoder_short)
    next
      case block
      let ?out = "if code \<noteq> 0xFF then (out @ take (unat code - 1) fd1) @ [0]
             else out @ take (unat code - 1) fd1"
      have step: "read_escaped_frame_from m v out (code # fd1)
          = read_escaped_frame_from m v ?out (drop (unat code - 1) fd1)" for v
        using block by (rule decoder_block)
      from "1.IH"(2) [OF Cons _ _ _ refl] block
      have "read_escaped_frame_from m (w + k) ?out (drop (unat code - 1) fd1)
          = map_option (\<lambda>r. r\<lparr>warned := warned r + k\<rparr>)
              (read_escaped_frame_from m w ?out (drop (unat code - 1) fd1))"
        by simp
      then show ?thesis
        unfolding Cons step .
    qed
  qed
qed

lemma dropWhile_junk: "0 \<notin> set junk \<Longrightarrow> dropWhile (\<lambda>c. c \<noteq> 0) (junk @ (0 :: u8) # rest) = 0 # rest"
  by (induction junk) auto

text \<open>
  C1. The documented encoding of a run of 254 non-zero bytes is the count \<open>0xFF\<close>, the
  254 bytes and the final zero, and its payload is those 254 bytes. The decoder appends
  no zero after a block of count \<open>0xFF\<close>, yet its return statement always takes one
  byte off the cursor: it returns 253, and the frame it hands on has lost its last byte.
\<close>

theorem decoder_drops_last_byte_of_maximal_block:
  "wire_of_blocks [replicate 254 1] = 0xFF # replicate 254 1 @ [0] \<and>
   payload_of_blocks [replicate 254 1] = replicate 254 1 \<and>
   map_option ret (read_escaped_frame 65528 (wire_of_blocks [replicate 254 1])) = Some 253 \<and>
   map_option frame_payload (read_escaped_frame 65528 (wire_of_blocks [replicate 254 1]))
     = Some (replicate 253 1)"
  by (simp add: wire_of_blocks_def read_escaped_frame_def read_escaped_frame_from.simps
      frame_payload_def)

text \<open>
  C6. When the decoder, with \<open>length out\<close> bytes decoded, reads a count byte \<open>code\<close>
  with \<open>length out + code > max_plain_size\<close>, and the source then delivers bytes
  \<open>junk\<close> without a zero, the zero byte and \<open>rest\<close>, the result is that of decoding
  \<open>rest\<close> as a fresh frame, with one more warning printed. (\<open>w\<close> warnings were printed
  before.)
\<close>

theorem too_long_frame_resynchronises:
  assumes "code \<noteq> 0" and "length out + unat code > max_plain_size" and "0 \<notin> set junk"
  shows "read_escaped_frame_from max_plain_size w out (code # junk @ 0 # rest)
     = map_option (\<lambda>r. r\<lparr>warned := warned r + Suc w\<rparr>) (read_escaped_frame max_plain_size rest)"
proof -
  have "read_escaped_frame_from max_plain_size w out (code # junk @ 0 # rest)
      = read_escaped_frame_from max_plain_size (Suc w) [] rest"
    using assms by (simp add: decoder_too_long dropWhile_junk)
  also have "\<dots> = read_escaped_frame_from max_plain_size (0 + Suc w) [] rest"
    by simp
  also have "\<dots> = map_option (\<lambda>r. r\<lparr>warned := warned r + Suc w\<rparr>)
      (read_escaped_frame_from max_plain_size 0 [] rest)"
    by (rule warned_shift)
  finally show ?thesis
    by (simp add: read_escaped_frame_def)
qed

theorem too_long_frame_resynchronises_witness:
  "(3 :: u8) \<noteq> 0 \<and> length [1, 1, 0 :: u8] + unat (3 :: u8) > 4 \<and> (0 :: u8) \<notin> set [1, 1] \<and>
   read_escaped_frame 4 [3, 1, 1, 3, 1, 1, 0, 2, 7, 0, 9]
     = Some \<lparr>ret = 1, plain = [7, 0], source = [9], warned = 1\<rparr>"
proof -
  have "read_escaped_frame 4 [3, 1, 1, 3, 1, 1, 0, 2, 7, 0, 9]
      = read_escaped_frame_from 4 0 [1, 1, 0] ([3] @ [1, 1] @ 0 # [2, 7, 0, 9])"
    by (simp add: read_escaped_frame_def decoder_block)
  also have "\<dots> = map_option (\<lambda>r. r\<lparr>warned := warned r + Suc 0\<rparr>)
      (read_escaped_frame 4 [2, 7, 0, 9])"
    using too_long_frame_resynchronises [where code = 3 and out = "[1, 1, 0]"
        and max_plain_size = 4 and junk = "[1, 1]" and w = 0 and rest = "[2, 7, 0, 9]"]
    by simp
  also have "\<dots> = Some \<lparr>ret = 1, plain = [7, 0], source = [9], warned = 1\<rparr>"
    by (simp add: read_escaped_frame_def decoder_block decoder_end)
  finally show ?thesis by simp
qed

section \<open>Reading the byte store after writes\<close>

lemma read_bytes_zero: "read_bytes (\<lambda>_. 0) a n = replicate n 0"
  by (induction n arbitrary: a) auto

lemma read_bytes_append:
  "read_bytes m a (n + k) = read_bytes m a n @ read_bytes m (a + n) k"
  by (induction n arbitrary: a) auto

lemma read_bytes_write_disjoint:
  "a + n \<le> b \<or> b + length bs \<le> a \<Longrightarrow> read_bytes (write_bytes m b bs) a n = read_bytes m a n"
  by (rule nth_equalityI) (auto simp add: read_bytes_nth write_bytes_outside)

lemma read_bytes_write_prefix:
  "n \<le> length bs \<Longrightarrow> read_bytes (write_bytes m a bs) a n = take n bs"
  by (rule nth_equalityI) (auto simp add: read_bytes_nth write_bytes_inside)

lemma read_bytes_store_disjoint:
  "a + n \<le> b \<or> b + 8 \<le> a \<Longrightarrow> read_bytes (store_u64 m b w) a n = read_bytes m a n"
  by (simp add: store_u64_def read_bytes_write_disjoint)

lemma read_bytes_store_same: "read_bytes (store_u64 m a w) a 8 = le_bytes w"
  using read_write_same [of m a "le_bytes w"] by (simp add: store_u64_def)

lemma read_bytes_memset_disjoint:
  "a + n \<le> b \<or> b + k \<le> a \<Longrightarrow> read_bytes (memset0 m b k) a n = read_bytes m a n"
  by (simp add: memset0_def read_bytes_write_disjoint)

lemma read_bytes_memset_same: "read_bytes (memset0 m a k) a k = replicate k 0"
  using read_write_same [of m a "replicate k 0"] by (simp add: memset0_def)

lemma load_store_disjoint:
  "a + 8 \<le> b \<or> b + 8 \<le> a \<Longrightarrow> load_u64 (store_u64 m b w) a = load_u64 m a"
  by (simp add: load_u64_def read_bytes_store_disjoint)

lemmas mem_simps = read_bytes_zero read_bytes_write_disjoint read_bytes_write_prefix
  read_bytes_store_disjoint read_bytes_store_same read_bytes_memset_disjoint
  read_bytes_memset_same load_store_same load_store_disjoint

declare write_bytes.simps(2) [simp del] read_bytes.simps(2) [simp del]

section \<open>Replay against ingest\<close>

lemma read_header_rec: "read_logging_header logged_record = (65538, [65, 66, 0, 0, 0, 0, 0, 0])"
  by (simp add: read_logging_header.simps logged_record_def)

lemma read_header_nil: "read_logging_header [] = (0, [])"
  by (simp add: read_logging_header.simps)

lemma replay_step:
  "bin_to_shm_loop cobs_ring logged_record
     = Some (cobs_ring\<lparr>data := store_u64 (memset0
          (write_bytes (data cobs_ring) 24 [65, 66, 0, 0, 0, 0, 0, 0]) 26 6) 0 10,
          writer_cursor := 32\<rparr>)"
  apply (subst bin_to_shm_loop.simps)
  apply (simp add: read_header_rec Let_def shared_memory_ringbuffer_acquire_def cobs_ring_def sizeof_slot_def packet_size_padded_def packet_of_def shared_memory_ringbuffer_send_def)
  apply (subst bin_to_shm_loop.simps)
  apply (simp add: read_header_nil Let_def shared_memory_ringbuffer_acquire_def sizeof_slot_def packet_size_padded_def packet_of_def)
  done

lemma decode_AB: "read_escaped_frame 65528 [3, 65, 66, 0]
   = Some \<lparr>ret = 2, plain = [65, 66, 0], source = [], warned = 0\<rparr>"
  by (simp add: read_escaped_frame_def decoder_block decoder_end)

lemma decode_nil: "read_escaped_frame 65528 [] = None"
  by (simp add: read_escaped_frame_def decoder_eof)

lemma le_bytes_65538: "le_bytes 65538 = [2, 0, 1, 0, 0, 0, 0, 0]"
  by (simp add: le_bytes_def)

lemma ingest_record:
  "read_bytes (store_u64 (memset0 (store_u64 (write_bytes (\<lambda>_. 0) 24 [65, 66, 0]) 16 65538) 26 6)
      0 10) 16 16 = logged_record"
proof -
  have six: "replicate 6 (0 :: u8) = [0, 0, 0, 0, 0, 0]"
    by (simp add: eval_nat_numeral)
  have "read_bytes (store_u64 (memset0 (store_u64 (write_bytes (\<lambda>_. 0) 24 [65, 66, 0]) 16 65538)
      26 6) 0 10) 16 (8 + (2 + 6)) = logged_record"
    unfolding read_bytes_append
    by (simp add: mem_simps le_bytes_65538 logged_record_def six)
  then show ?thesis by simp
qed

lemma ingest_step:
  "ingest_logger
     = Some (fresh_logger\<lparr>ring := cobs_ring\<lparr>data := store_u64 (memset0 (store_u64
          (write_bytes (data cobs_ring) 24 [65, 66, 0]) 16 65538) 26 6) 0 10,
          writer_cursor := 32\<rparr>,
        packet_time_previous := 17, time_microseconds_file_start := 17,
        stdout := [(''/dev/shm'', 0)],
        closed_files := [\<lparr>name = (''/dev/shm'', 0), contents = logged_record\<rparr>]\<rparr>)"
  unfolding ingest_logger_def
  apply (subst main_loop.simps)
  apply (simp add: decode_AB Let_def shared_memory_ringbuffer_acquire_def fresh_logger_def cobs_ring_def sizeof_slot_def packet_of_def)
  apply (simp add: handle_packet_def Let_def packet_size_padded_def logging_header_def packet_of_def shared_memory_ringbuffer_send_def sizeof_slot_def)
  apply (subst main_loop.simps)
  apply (simp add: decode_nil Let_def shutdown_def ingest_record)
  done

text \<open>
  C4. The serial ingest of the frame "AB" at time 17 logs the record \<open>logged_record\<close>,
  whose first 8 bytes are the header, and commits a slot of size 10 whose first 8 bytes
  are that header and whose next 2 bytes are "AB". The replay of \<open>logged_record\<close>
  commits a slot of size 10 with the same 2 bytes of packet, but its first 8 bytes are
  the zeros the new segment held: the loop of the replay variant never stores the
  header it read into the slot.
\<close>

theorem replay_leaves_header_unwritten:
  "map_option (\<lambda>s. map contents (closed_files s)) ingest_logger = Some [logged_record] \<and>
   take 8 logged_record = le_bytes (logging_header 17 2) \<and>
   map_option (\<lambda>s. load_u64 (data (ring s)) 0) ingest_logger = Some 10 \<and>
   map_option (\<lambda>s. slot_bytes (ring s) 16 8) ingest_logger = Some (le_bytes (logging_header 17 2)) \<and>
   map_option (\<lambda>s. slot_bytes (ring s) 24 2) ingest_logger = Some [65, 66] \<and>
   map_option (\<lambda>s. load_u64 (data s) 0) replayed_ring = Some 10 \<and>
   map_option (\<lambda>s. slot_bytes s 16 8) replayed_ring = Some [0, 0, 0, 0, 0, 0, 0, 0] \<and>
   map_option (\<lambda>s. slot_bytes s 24 2) replayed_ring = Some [65, 66]"
proof -
  have h: "logging_header 17 2 = 65538"
    by (simp add: logging_header_def)
  have eight: "replicate 8 (0 :: u8) = [0, 0, 0, 0, 0, 0, 0, 0]"
    by (simp add: eval_nat_numeral)
  have a: "map_option (\<lambda>s. map contents (closed_files s)) ingest_logger = Some [logged_record]"
    by (simp add: ingest_step fresh_logger_def)
  have b: "take 8 logged_record = le_bytes (logging_header 17 2)"
    by (simp add: h le_bytes_65538 logged_record_def)
  have c: "map_option (\<lambda>s. load_u64 (data (ring s)) 0) ingest_logger = Some 10"
    by (simp add: ingest_step mem_simps)
  have d: "map_option (\<lambda>s. slot_bytes (ring s) 16 8) ingest_logger
      = Some (le_bytes (logging_header 17 2))"
    by (simp add: ingest_step slot_bytes_def mem_simps h)
  have e: "map_option (\<lambda>s. slot_bytes (ring s) 24 2) ingest_logger = Some [65, 66]"
    unfolding ingest_step by (simp add: slot_bytes_def mem_simps cobs_ring_def)
  have f: "map_option (\<lambda>s. load_u64 (data s) 0) replayed_ring = Some 10"
    by (simp add: replayed_ring_def replay_step mem_simps)
  have g: "map_option (\<lambda>s. slot_bytes s 16 8) replayed_ring = Some [0, 0, 0, 0, 0, 0, 0, 0]"
    unfolding replayed_ring_def replay_step
    by (simp add: slot_bytes_def mem_simps cobs_ring_def eight)
  have i: "map_option (\<lambda>s. slot_bytes s 24 2) replayed_ring = Some [65, 66]"
    unfolding replayed_ring_def replay_step
    by (simp add: slot_bytes_def mem_simps cobs_ring_def)
  from a b c d e f g i show ?thesis
    by (simp only: simp_thms)
qed

section \<open>Alignment\<close>

lemma unat_add_mod_16: "unat (a + b :: u64) mod 16 = (unat a + unat b) mod 16"
proof -
  have "unat (a + b) mod 16 = ((unat a + unat b) mod 2 ^ 64) mod 16"
    by (simp add: unat_word_ariths)
  also have "\<dots> = (unat a + unat b) mod 16"
    by (rule mod_mod_cancel) simp
  finally show ?thesis .
qed

lemma unat_and_not_15: "unat ((x :: u64) AND NOT 15) mod 16 = 0"
proof -
  have "x AND NOT 15 = (x div 16) * 16"
    unfolding and_not_15_shift by (simp add: drop_bit_eq_div push_bit_eq_mult)
  then have "unat (x AND NOT 15) = (unat (x div 16) * 16) mod 2 ^ 64"
    by (simp add: unat_word_ariths)
  then have "unat (x AND NOT 15) mod 16 = ((unat (x div 16) * 16) mod 2 ^ 64) mod 16"
    by simp
  also have "\<dots> = (unat (x div 16) * 16) mod 16"
    by (rule mod_mod_cancel) simp
  finally show ?thesis by simp
qed

lemma send_cursor_aligned:
  assumes "shared_memory_ringbuffer_send shm n = Some shm'" and "unat (writer_cursor shm) mod 16 = 0"
  shows "unat (writer_cursor shm') mod 16 = 0 \<and> cursor_wrap shm' = cursor_wrap shm"
proof -
  from assms(1) have wc: "writer_cursor shm' = writer_cursor shm + ((sizeof_slot + n + 15) AND NOT 15)"
    and cw: "cursor_wrap shm' = cursor_wrap shm"
    by (auto simp add: shared_memory_ringbuffer_send_def Let_def split: if_splits)
  have "unat (writer_cursor shm') mod 16
      = (unat (writer_cursor shm) + unat ((sizeof_slot + n + 15) AND NOT 15)) mod 16"
    unfolding wc by (rule unat_add_mod_16)
  also have "\<dots> = 0"
    using assms(2) unat_and_not_15 [of "sizeof_slot + n + 15"]
    by presburger
  finally show ?thesis using cw by simp
qed

lemma sends_cursor_aligned:
  "sends shm ns = Some shm' \<Longrightarrow> unat (writer_cursor shm) mod 16 = 0 \<Longrightarrow>
   unat (writer_cursor shm') mod 16 = 0 \<and> cursor_wrap shm' = cursor_wrap shm"
proof (induction ns arbitrary: shm)
  case Nil
  then show ?case by simp
next
  case (Cons n ns)
  from Cons.prems(1) obtain shm1 where
    s1: "shared_memory_ringbuffer_send shm n = Some shm1" and s2: "sends shm1 ns = Some shm'"
    by (auto split: option.splits)
  from send_cursor_aligned [OF s1 Cons.prems(2)]
  have "unat (writer_cursor shm1) mod 16 = 0" and "cursor_wrap shm1 = cursor_wrap shm"
    by simp_all
  with Cons.IH [OF s2] show ?case by simp
qed

lemma init_fields:
  assumes "shared_memory_ringbuffer_writer_init os_ok ringbuffer_size packet_size_max pid
             = Some (Some shm)"
  shows "writer_cursor shm = 0" and "cursor_wrap shm = ringbuffer_size"
    and "packet_size_max mod 16 = 0"
    and "(word_of_nat offsetof_data + ringbuffer_size + (packet_size_max + sizeof_slot)) mod 16 = 0"
  using assms unfolding shared_memory_ringbuffer_writer_init_def Let_def
  by (auto split: if_split_asm)

lemma unat_mod_16_zero: "(w :: u64) mod 16 = 0 \<Longrightarrow> unat w mod 16 = 0"
proof -
  assume "w mod 16 = 0"
  then have "unat (w mod 16) = 0" by simp
  then show ?thesis by (simp add: unat_mod)
qed

lemma unat_offset_plus: "unat (word_of_nat offsetof_data + ringbuffer_size :: u64) mod 16 = (32 + unat ringbuffer_size) mod 16"
proof -
  have "(word_of_nat offsetof_data :: u64) = 32"
    by (simp add: offsetof_data_def)
  moreover have "unat ((32 :: u64) + ringbuffer_size) mod 16 = (unat (32 :: u64) + unat ringbuffer_size) mod 16"
    by (rule unat_add_mod_16)
  moreover have "unat (32 :: u64) = 32"
    by simp
  ultimately show ?thesis
    by (simp only:)
qed

lemma unat_plus_slot: "unat (packet_size_max + sizeof_slot) mod 16 = (unat packet_size_max + 16) mod 16"
proof -
  have "unat (packet_size_max + (16 :: u64)) mod 16 = (unat packet_size_max + unat (16 :: u64)) mod 16"
    by (rule unat_add_mod_16)
  moreover have "unat (16 :: u64) = 16"
    by simp
  ultimately show ?thesis
    by (simp only: sizeof_slot_def)
qed

lemma mod_16_chain:
  fixes x y r p :: nat
  assumes "(x + y) mod 16 = 0" and "x mod 16 = (32 + r) mod 16" and "y mod 16 = (p + 16) mod 16"
    and "p mod 16 = 0"
  shows "r mod 16 = 0"
proof -
  from assms(3,4) have "y mod 16 = 0"
    by simp
  then have y: "16 dvd y"
    by (simp only: mod_eq_0_iff_dvd)
  from assms(1) have "16 dvd x + y"
    by (simp only: mod_eq_0_iff_dvd)
  with y have "16 dvd x"
    by (simp only: dvd_add_left_iff)
  then have "x mod 16 = 0"
    by (simp only: mod_eq_0_iff_dvd)
  with assms(2) have "(32 + r) mod 16 = 0"
    by (simp only:)
  then have "16 dvd 32 + r"
    by (simp only: mod_eq_0_iff_dvd)
  moreover have "(16 :: nat) dvd 32"
    by simp
  ultimately have "16 dvd r"
    by (simp only: dvd_add_right_iff)
  then show ?thesis
    by (simp only: mod_eq_0_iff_dvd)
qed

lemma init_wrap_aligned:
  assumes "shared_memory_ringbuffer_writer_init os_ok ringbuffer_size packet_size_max pid
             = Some (Some shm)"
  shows "writer_cursor shm = 0 \<and> unat (cursor_wrap shm) mod 16 = 0"
proof -
  note f = init_fields [OF assms]
  have pm: "unat packet_size_max mod 16 = 0"
    using f(3) by (rule unat_mod_16_zero)
  have "unat (word_of_nat offsetof_data + ringbuffer_size + (packet_size_max + sizeof_slot)) mod 16
      = 0"
    using f(4) by (rule unat_mod_16_zero)
  then have "(unat (word_of_nat offsetof_data + ringbuffer_size)
      + unat (packet_size_max + sizeof_slot)) mod 16 = 0"
    by (simp only: unat_add_mod_16)
  then have "unat ringbuffer_size mod 16 = 0"
    using unat_offset_plus unat_plus_slot pm by (rule mod_16_chain)
  with f(1,2) show ?thesis
    by (simp only: simp_thms)
qed

lemma ring_alignment:
  assumes "shared_memory_ringbuffer_writer_init os_ok ringbuffer_size packet_size_max pid
             = Some (Some shm0)"
    and "sends shm0 ns = Some shm"
  shows "unat (writer_cursor shm) mod 16 = 0 \<and>
         (offsetof_data + unat (writer_cursor shm mod cursor_wrap shm)) mod 16 = 0"
proof -
  from init_wrap_aligned [OF assms(1)]
  have w0: "unat (writer_cursor shm0) mod 16 = 0" and c0: "unat (cursor_wrap shm0) mod 16 = 0"
    by simp_all
  from sends_cursor_aligned [OF assms(2) w0] c0
  have w: "unat (writer_cursor shm) mod 16 = 0" and c: "unat (cursor_wrap shm) mod 16 = 0"
    by simp_all
  have m: "unat (writer_cursor shm mod cursor_wrap shm)
      = unat (writer_cursor shm) mod unat (cursor_wrap shm)"
    by (rule unat_mod)
  from w c have "16 dvd unat (writer_cursor shm)" and "16 dvd unat (cursor_wrap shm)"
    by (simp_all only: mod_eq_0_iff_dvd)
  then have "16 dvd unat (writer_cursor shm) mod unat (cursor_wrap shm)"
    by (simp only: dvd_mod)
  moreover have "(16 :: nat) dvd 32"
    by simp
  ultimately have "16 dvd 32 + unat (writer_cursor shm mod cursor_wrap shm)"
    unfolding m by (rule dvd_add [rotated])
  then have "(offsetof_data + unat (writer_cursor shm mod cursor_wrap shm)) mod 16 = 0"
    by (simp only: offsetof_data_def mod_eq_0_iff_dvd)
  with w show ?thesis
    by (simp only: simp_thms)
qed

lemma seven_mask: "(7 :: u64) = mask 3"
  by (simp add: mask_eq_exp_minus_1)

lemma and_not_7_mult: "(x :: u64) AND NOT 7 = (x div 8) * 8"
proof -
  have "x AND NOT 7 = push_bit 3 (drop_bit 3 x)"
    unfolding seven_mask by (rule bit_eqI) (auto simp add: bit_simps)
  then show ?thesis
    by (simp add: drop_bit_eq_div push_bit_eq_mult)
qed

lemma unat_and_not_7: "unat ((x :: u64) AND NOT 7) = unat x div 8 * 8"
proof -
  have "unat x div 8 * 8 \<le> unat x"
    by simp
  also have "unat x < 2 ^ 64"
    using unsigned_less [of x] by simp
  finally have lt: "unat x div 8 * 8 < 2 ^ 64" .
  have "unat ((x div 8) * 8) = (unat (x div 8) * unat (8 :: u64)) mod 2 ^ 64"
    by (simp add: unat_word_ariths)
  also have "\<dots> = (unat x div 8 * 8) mod 2 ^ 64"
    by (simp add: unat_div)
  also have "\<dots> = unat x div 8 * 8"
    using lt by simp
  finally show ?thesis
    by (simp only: and_not_7_mult)
qed

lemma unat_add_mod_8: "unat (a + b :: u64) mod 8 = (unat a + unat b) mod 8"
proof -
  have "unat (a + b) mod 8 = ((unat a + unat b) mod 2 ^ 64) mod 8"
    by (simp add: unat_word_ariths)
  also have "\<dots> = (unat a + unat b) mod 8"
    by (rule mod_mod_cancel) simp
  finally show ?thesis .
qed

lemma record_length_aligned: "unat (8 + packet_size_padded sz) mod 8 = 0"
proof -
  have "unat (8 + packet_size_padded sz) mod 8 = (unat (8 :: u64) + unat (packet_size_padded sz)) mod 8"
    by (rule unat_add_mod_8)
  also have "\<dots> = (unat (8 :: u64) + unat (sz + 7) div 8 * 8) mod 8"
    by (simp only: packet_size_padded_def unat_and_not_7)
  also have "\<dots> = 0"
    by simp
  finally show ?thesis .
qed

lemma handle_packet_aligned:
  assumes "handle_packet lp T buf sz st = Some st'" and "log_aligned st"
  shows "log_aligned st'"
  using assms record_length_aligned [of sz]
  unfolding handle_packet_def Let_def log_aligned_def
  by (auto split: option.splits if_splits)

lemma shutdown_aligned: "log_aligned st \<Longrightarrow> log_aligned (shutdown st)"
  by (auto simp add: log_aligned_def shutdown_def split: option.splits)

lemma main_loop_aligned:
  "main_loop lp clock n st fd = Some st' \<Longrightarrow> log_aligned st \<Longrightarrow> log_aligned st'"
proof (induction lp clock n st fd arbitrary: st' rule: main_loop.induct)
  case (1 lp clock n st fd)
  let ?buf = "shared_memory_ringbuffer_acquire (ring st)"
  note unf = "1.prems"(1) [unfolded main_loop.simps [of lp clock n st fd] Let_def]
  show ?case
  proof (cases "read_escaped_frame 65528 fd")
    case None
    with unf have "st' = shutdown st"
      by simp
    with "1.prems"(2) show ?thesis
      by (simp add: shutdown_aligned)
  next
    case (Some r)
    let ?st1 = "st\<lparr>ring := (ring st)\<lparr>data :=
                  write_bytes (data (ring st)) (packet_of ?buf) (plain r)\<rparr>\<rparr>"
    have al1: "log_aligned ?st1"
      using "1.prems"(2) by (simp add: log_aligned_def)
    show ?thesis
    proof (cases "ret r = 0")
      case True
      with unf Some have "main_loop lp clock n ?st1 (source r) = Some st'"
        by simp
      from "1.IH"(1) [OF refl Some refl True this al1] show ?thesis .
    next
      case False
      with unf Some obtain st2 where
        hp: "handle_packet lp (clock n) ?buf (word_of_nat (ret r)) ?st1 = Some st2"
        and ml: "main_loop lp clock (Suc n) st2 (source r) = Some st'"
        by (auto split: option.splits)
      from handle_packet_aligned [OF hp al1] have al2: "log_aligned st2" .
      from "1.IH"(2) [OF refl Some refl False hp ml al2] show ?thesis .
    qed
  qed
qed

lemma record_bytes:
  assumes "slot + 16 = buf" and "n \<le> p"
  shows "read_bytes (store_u64 (memset0 (store_u64 d buf h) (buf + 8 + n) (p - n)) slot w) buf (8 + p)
     = le_bytes h @ read_bytes d (buf + 8) n @ replicate (p - n) 0"
proof -
  let ?m = "store_u64 (memset0 (store_u64 d buf h) (buf + 8 + n) (p - n)) slot w"
  have "read_bytes ?m buf (8 + (n + (p - n)))
      = read_bytes ?m buf 8 @ read_bytes ?m (buf + 8) n @ read_bytes ?m (buf + 8 + n) (p - n)"
    by (simp only: read_bytes_append)
  moreover have "read_bytes ?m buf 8 = le_bytes h"
    using assms(1) by (simp add: mem_simps)
  moreover have "read_bytes ?m (buf + 8) n = read_bytes d (buf + 8) n"
    using assms(1) by (simp add: mem_simps)
  moreover have "read_bytes ?m (buf + 8 + n) (p - n) = replicate (p - n) 0"
    using assms(1) by (simp add: mem_simps)
  moreover have "8 + (n + (p - n)) = 8 + p"
    using assms(2) by simp
  ultimately show ?thesis
    by (simp only:)
qed

lemma padded_unat:
  assumes "unat sz \<le> 65528"
  shows "unat (packet_size_padded sz) = round_up_8 (unat sz)"
    and "unat (packet_size_padded sz - sz) = round_up_8 (unat sz) - unat sz"
    and "unat (8 + packet_size_padded sz) = 8 + round_up_8 (unat sz)"
    and "unat sz \<le> round_up_8 (unat sz)"
proof -
  have s7: "unat (sz + 7) = unat sz + 7"
    using assms unat_add_lem [of sz 7] by simp
  show p: "unat (packet_size_padded sz) = round_up_8 (unat sz)"
    by (simp only: packet_size_padded_def unat_and_not_7 s7 round_up_8_def)
  show le: "unat sz \<le> round_up_8 (unat sz)"
    unfolding round_up_8_def by presburger
  then have "sz \<le> packet_size_padded sz"
    by (simp only: word_le_nat_alt p)
  then show "unat (packet_size_padded sz - sz) = round_up_8 (unat sz) - unat sz"
    by (simp only: unat_sub p)
  have "round_up_8 (unat sz) \<le> unat sz + 7"
    unfolding round_up_8_def by presburger
  with assms show "unat (8 + packet_size_padded sz) = 8 + round_up_8 (unat sz)"
    using unat_add_lem [of 8 "packet_size_padded sz"] by (simp add: p)
qed

lemma memset_if:
  "(if padded \<noteq> sz then memset0 d a (unat (padded - sz)) else d) = memset0 d a (unat (padded - (sz :: u64)))"
  by (simp add: memset0_def)

lemma handle_packet_appends:
  assumes "handle_packet lp T buf sz st = Some st'" and "fh st' = Some f'"
    and "slot = unat (writer_cursor (ring st) mod cursor_wrap (ring st))"
  shows "\<exists>old. contents f' = old @
      read_bytes (store_u64 (memset0 (store_u64 (data (ring st)) buf (logging_header T sz))
        (packet_of buf + unat sz) (unat (packet_size_padded sz - sz))) slot (8 + sz))
        buf (unat (8 + packet_size_padded sz)) \<and>
      (old = [] \<or> map_option contents (fh st) = Some old)"
  using assms
  unfolding handle_packet_def Let_def memset_if shared_memory_ringbuffer_send_def
  by (auto split: option.splits if_splits)

lemma handle_packet_record:
  assumes hp: "handle_packet lp T (shared_memory_ringbuffer_acquire (ring st)) sz st = Some st'"
    and sz: "unat sz \<le> 65528" and f': "fh st' = Some f'"
  shows "\<exists>old. contents f' = old @ le_bytes (logging_header T sz) @
      read_bytes (data (ring st)) (packet_of (shared_memory_ringbuffer_acquire (ring st))) (unat sz) @
      replicate (round_up_8 (unat sz) - unat sz) 0 \<and>
      (old = [] \<or> map_option contents (fh st) = Some old)"
proof -
  define slot where "slot = unat (writer_cursor (ring st) mod cursor_wrap (ring st))"
  define buf where "buf = shared_memory_ringbuffer_acquire (ring st)"
  have sb: "slot + 16 = buf"
    by (simp add: slot_def buf_def shared_memory_ringbuffer_acquire_def sizeof_slot_def)
  note pu = padded_unat [OF sz]
  from handle_packet_appends [OF hp [folded buf_def] f' slot_def]
  obtain old where c: "contents f' = old @
      read_bytes (store_u64 (memset0 (store_u64 (data (ring st)) buf (logging_header T sz))
        (packet_of buf + unat sz) (unat (packet_size_padded sz - sz))) slot (8 + sz))
        buf (unat (8 + packet_size_padded sz))"
    and o: "old = [] \<or> map_option contents (fh st) = Some old"
    by blast
  have "read_bytes (store_u64 (memset0 (store_u64 (data (ring st)) buf (logging_header T sz))
        (buf + 8 + unat sz) (round_up_8 (unat sz) - unat sz)) slot (8 + sz))
        buf (8 + round_up_8 (unat sz))
      = le_bytes (logging_header T sz) @ read_bytes (data (ring st)) (buf + 8) (unat sz) @
        replicate (round_up_8 (unat sz) - unat sz) 0"
    using sb pu(4) by (rule record_bytes)
  with c have "contents f' = old @ le_bytes (logging_header T sz) @
      read_bytes (data (ring st)) (packet_of buf) (unat sz) @
      replicate (round_up_8 (unat sz) - unat sz) 0"
    by (simp only: pu packet_of_def)
  with o show ?thesis
    unfolding buf_def by blast
qed

text \<open>
  C9. From the segment \<open>shared_memory_ringbuffer_writer_init\<close> creates (cursor 0), after
  any sequence of sends whose assertions pass, \<open>writer_cursor\<close> is a multiple of 16, and
  so is the offset of the next slot prefix in the mapping (which \<open>mmap\<close> aligns to a
  page): \<open>offsetof(data) + writer_cursor mod cursor_wrap\<close>. In the log file, a packet of
  size at most 65528 adds one record: the 8 bytes of the header, the packet, and zero
  bytes up to \<open>round_up_8\<close> of the size; every step of the loop, and the loop as a
  whole, keeps the length of every log file a multiple of 8.
\<close>

theorem ring_and_log_alignment:
  "(shared_memory_ringbuffer_writer_init os_ok ringbuffer_size packet_size_max pid = Some (Some shm0) \<and>
    sends shm0 ns = Some shm \<longrightarrow>
      unat (writer_cursor shm) mod 16 = 0 \<and>
      (offsetof_data + unat (writer_cursor shm mod cursor_wrap shm)) mod 16 = 0) \<and>
   (handle_packet lp T (shared_memory_ringbuffer_acquire (ring st)) sz st = Some st' \<and>
    unat sz \<le> 65528 \<and> fh st' = Some f' \<longrightarrow>
      (\<exists>old. contents f' = old @ le_bytes (logging_header T sz) @
         read_bytes (data (ring st)) (packet_of (shared_memory_ringbuffer_acquire (ring st)))
           (unat sz) @
         replicate (round_up_8 (unat sz) - unat sz) 0 \<and>
         (old = [] \<or> map_option contents (fh st) = Some old))) \<and>
   (handle_packet lp T buf sz st = Some st' \<and> log_aligned st \<longrightarrow> log_aligned st') \<and>
   (main_loop lp clock n st fd_serial = Some st'' \<and> log_aligned st \<longrightarrow> log_aligned st'')"
  using ring_alignment [of os_ok ringbuffer_size packet_size_max pid shm0 ns shm]
    handle_packet_record [of lp T st sz st' f']
    handle_packet_aligned [of lp T buf sz st st']
    main_loop_aligned [of lp clock n st fd_serial st'']
  by blast

theorem ring_and_log_alignment_witness:
  "unat (writer_cursor ring_with_slot) mod 16 = 0 \<and>
   (offsetof_data + unat (writer_cursor ring_with_slot mod cursor_wrap ring_with_slot)) mod 16 = 0 \<and>
   map_option (\<lambda>s. map_option contents (fh s))
       (handle_packet (Some ''/dev/shm'') 17 (shared_memory_ringbuffer_acquire cobs_ring) 2 fresh_logger)
     = Some (Some (le_bytes (logging_header 17 2) @ read_bytes (data cobs_ring) 24 2 @
         replicate (round_up_8 2 - 2) 0)) \<and>
   map_option log_aligned
       (handle_packet (Some ''/dev/shm'') 17 (shared_memory_ringbuffer_acquire cobs_ring) 2 fresh_logger)
     = Some True \<and>
   map_option log_aligned ingest_logger = Some True \<and>
   map_option (\<lambda>s. map (\<lambda>f. length (contents f)) (closed_files s)) ingest_logger = Some [16]"
proof -
  have s: "sends cobs_ring [10] = Some ring_with_slot"
    by (simp add: ring_with_slot_sent)
  have a: "unat (writer_cursor ring_with_slot) mod 16 = 0 \<and>
      (offsetof_data + unat (writer_cursor ring_with_slot mod cursor_wrap ring_with_slot)) mod 16 = 0"
    using ring_and_log_alignment [of True 4194304 65536 1 cobs_ring "[10]" ring_with_slot]
      cobs_ring_init s by simp
  have fl: "log_aligned fresh_logger"
    by (simp add: log_aligned_def fresh_logger_def)
  have r: "ring fresh_logger = cobs_ring" and nf: "fh fresh_logger = None"
    by (simp_all add: fresh_logger_def)
  have "\<exists>st' f'. handle_packet (Some ''/dev/shm'') 17 (shared_memory_ringbuffer_acquire cobs_ring) 2
      fresh_logger = Some st' \<and> fh st' = Some f'"
    by (simp add: handle_packet_def Let_def fresh_logger_def cobs_ring_def
        shared_memory_ringbuffer_send_def sizeof_slot_def packet_size_padded_def)
  then obtain st' f' where
    hp: "handle_packet (Some ''/dev/shm'') 17 (shared_memory_ringbuffer_acquire cobs_ring) 2
      fresh_logger = Some st'" and f': "fh st' = Some f'"
    by blast
  have ac: "packet_of (shared_memory_ringbuffer_acquire cobs_ring) = 24"
    by (simp add: packet_of_def shared_memory_ringbuffer_acquire_def cobs_ring_def sizeof_slot_def)
  have "\<exists>old. contents f' = old @ le_bytes (logging_header 17 2) @
         read_bytes (data (ring fresh_logger))
           (packet_of (shared_memory_ringbuffer_acquire (ring fresh_logger))) (unat (2 :: u64)) @
         replicate (round_up_8 (unat (2 :: u64)) - unat (2 :: u64)) 0 \<and>
         (old = [] \<or> map_option contents (fh fresh_logger) = Some old)"
    using ring_and_log_alignment [where lp = "Some ''/dev/shm''" and T = 17 and st = fresh_logger
        and sz = 2 and st' = st' and f' = f'] hp f' r
    by simp
  then have "contents f' = le_bytes (logging_header 17 2) @ read_bytes (data cobs_ring) 24 2 @
         replicate (round_up_8 2 - 2) 0"
    by (auto simp add: nf r ac)
  with hp f' have b: "map_option (\<lambda>s. map_option contents (fh s))
       (handle_packet (Some ''/dev/shm'') 17 (shared_memory_ringbuffer_acquire cobs_ring) 2 fresh_logger)
     = Some (Some (le_bytes (logging_header 17 2) @ read_bytes (data cobs_ring) 24 2 @
         replicate (round_up_8 2 - 2) 0))"
    by simp
  have "log_aligned st'"
    using ring_and_log_alignment [where lp = "Some ''/dev/shm''" and T = 17 and st = fresh_logger
        and buf = "shared_memory_ringbuffer_acquire cobs_ring" and sz = 2 and st' = st'] hp fl
    by blast
  with hp have c: "map_option log_aligned
       (handle_packet (Some ''/dev/shm'') 17 (shared_memory_ringbuffer_acquire cobs_ring) 2 fresh_logger)
     = Some True"
    by simp
  obtain st'' where m: "main_loop (Some ''/dev/shm'') (\<lambda>_. 17) 0 fresh_logger [3, 65, 66, 0] = Some st''"
    using ingest_step by (simp add: ingest_logger_def)
  have "log_aligned st''"
    using ring_and_log_alignment [where lp = "Some ''/dev/shm''" and clock = "\<lambda>_. 17" and n = 0
        and st = fresh_logger and fd_serial = "[3, 65, 66, 0]" and st'' = st''] m fl
    by blast
  with m have d: "map_option log_aligned ingest_logger = Some True"
    by (simp add: ingest_logger_def)
  have e: "map_option (\<lambda>s. map (\<lambda>f. length (contents f)) (closed_files s)) ingest_logger = Some [16]"
    by (simp add: ingest_step fresh_logger_def logged_record_def)
  from a b c d e show ?thesis by blast
qed

section \<open>The rotation of log files\<close>






section \<open>Frames that do not end in a maximal block\<close>

lemma payload_then_zero:
  "bs \<noteq> [] \<Longrightarrow> length (last bs) \<noteq> 254 \<Longrightarrow> decoded_of_blocks bs = payload_of_blocks bs @ [0]"
  by (induction bs rule: payload_of_blocks.induct) auto

lemma count_byte:
  assumes "length b \<le> 254"
  shows "unat (word_of_nat (length b + 1) :: u8) = length b + 1"
    and "(word_of_nat (length b + 1) :: u8) \<noteq> 0"
    and "((word_of_nat (length b + 1) :: u8) = 0xFF) = (length b = 254)"
proof -
  show u: "unat (word_of_nat (length b + 1) :: u8) = length b + 1"
    using assms unat_of_nat [where ?'a = 8, of "length b + 1"] by simp
  then show "(word_of_nat (length b + 1) :: u8) \<noteq> 0"
    by (metis Suc_eq_plus1 nat.distinct(1) unat_0)
  have "((word_of_nat (length b + 1) :: u8) = 0xFF) = (unat (word_of_nat (length b + 1) :: u8) = unat (0xFF :: u8))"
    by (simp only: word_unat_eq_iff)
  then show "((word_of_nat (length b + 1) :: u8) = 0xFF) = (length b = 254)"
    unfolding u by simp
qed

lemma wire_Cons:
  "wire_of_blocks (b # bs) = word_of_nat (length b + 1) # b @ wire_of_blocks bs"
  by (simp add: wire_of_blocks_def)

lemma decoded_nonempty:
  "bs \<noteq> [] \<Longrightarrow> length (last bs) \<noteq> 254 \<Longrightarrow> decoded_of_blocks bs \<noteq> []"
proof (induction bs)
  case Nil
  then show ?case by simp
next
  case (Cons a as)
  then show ?case by (cases "as = []") auto
qed

lemma decoder_inverts_blocks:
  assumes "list_all wire_block_ok bs" and "bs \<noteq> []" and "length (last bs) \<noteq> 254"
    and "length out + length (decoded_of_blocks bs) \<le> m"
  shows "read_escaped_frame_from m w out (wire_of_blocks bs @ rest)
     = Some \<lparr>ret = length out + length (decoded_of_blocks bs) - 1,
             plain = out @ decoded_of_blocks bs, source = rest, warned = w\<rparr>"
  using assms
proof (induction bs arbitrary: out)
  case Nil
  then show ?case by simp
next
  case (Cons b bs)
  define code :: u8 where "code = word_of_nat (length b + 1)"
  from Cons.prems(1) have "wire_block_ok b" and rest_ok: "list_all wire_block_ok bs"
    by simp_all
  then have ok: "length b \<le> 254"
    by (simp add: wire_block_ok_def)
  note cb = count_byte [OF ok, folded code_def]
  define out' where "out' = out @ b @ (if length b = 254 then [] else [0])"
  have out_eq: "(if code \<noteq> 0xFF then (out @ take (unat code - 1) (b @ wire_of_blocks bs @ rest)) @ [0]
       else out @ take (unat code - 1) (b @ wire_of_blocks bs @ rest)) = out'"
    unfolding cb out'_def by simp
  have drop_eq: "drop (unat code - 1) (b @ wire_of_blocks bs @ rest) = wire_of_blocks bs @ rest"
    unfolding cb by simp
  have fits: "\<not> length out + unat code > m"
  proof (cases "bs = []")
    case True
    with Cons.prems(3,4) show ?thesis
      unfolding cb by simp
  next
    case False
    with Cons.prems(3) have "decoded_of_blocks bs \<noteq> []"
      by (simp add: decoded_nonempty)
    then have "1 \<le> length (decoded_of_blocks bs)"
      by (simp add: Suc_leI)
    with Cons.prems(4) show ?thesis
      unfolding cb by (simp split: if_splits)
  qed
  have enough: "\<not> length (b @ wire_of_blocks bs @ rest) < unat code - 1"
    unfolding cb by simp
  have "read_escaped_frame_from m w out (code # b @ wire_of_blocks bs @ rest)
      = read_escaped_frame_from m w
         (if code \<noteq> 0xFF then (out @ take (unat code - 1) (b @ wire_of_blocks bs @ rest)) @ [0]
          else out @ take (unat code - 1) (b @ wire_of_blocks bs @ rest))
         (drop (unat code - 1) (b @ wire_of_blocks bs @ rest))"
    using cb(2) fits enough by (rule decoder_block)
  then have "read_escaped_frame_from m w out (code # b @ wire_of_blocks bs @ rest)
      = read_escaped_frame_from m w out' (wire_of_blocks bs @ rest)"
    by (simp only: out_eq drop_eq)
  moreover have "wire_of_blocks (b # bs) @ rest = code # b @ wire_of_blocks bs @ rest"
    by (simp only: wire_Cons code_def append_Cons append_assoc)
  ultimately have step: "read_escaped_frame_from m w out (wire_of_blocks (b # bs) @ rest)
      = read_escaped_frame_from m w out' (wire_of_blocks bs @ rest)"
    by (simp only:)
  show ?case
  proof (cases "bs = []")
    case True
    have "read_escaped_frame_from m w out' (wire_of_blocks [] @ rest)
        = Some \<lparr>ret = (if length out' > 0 then length out' - 1 else 0), plain = out',
            source = rest, warned = w\<rparr>"
      by (simp add: wire_of_blocks_def decoder_end)
    with step True show ?thesis
      by (simp add: out'_def)
  next
    case False
    with Cons.prems(3) have l: "length (last bs) \<noteq> 254"
      by simp
    have "length out' + length (decoded_of_blocks bs) \<le> m"
      using Cons.prems(4) unfolding out'_def by simp
    from Cons.IH [OF rest_ok False l this]
    have "read_escaped_frame_from m w out' (wire_of_blocks bs @ rest)
        = Some \<lparr>ret = length out' + length (decoded_of_blocks bs) - 1,
             plain = out' @ decoded_of_blocks bs, source = rest, warned = w\<rparr>" .
    with step show ?thesis
      unfolding out'_def by simp
  qed
qed

text \<open>
  The round trip that does hold: a frame of valid blocks whose last block is not
  maximal, with a payload shorter than the capacity, is decoded to exactly its payload,
  and the source is left at the byte after the frame.
\<close>

lemma decoder_inverts_wire:
  assumes "list_all wire_block_ok bs" and "bs \<noteq> []" and "length (last bs) \<noteq> 254"
    and "length (payload_of_blocks bs) < m"
  shows "map_option ret (read_escaped_frame m (wire_of_blocks bs @ rest))
           = Some (length (payload_of_blocks bs)) \<and>
         map_option frame_payload (read_escaped_frame m (wire_of_blocks bs @ rest))
           = Some (payload_of_blocks bs) \<and>
         map_option source (read_escaped_frame m (wire_of_blocks bs @ rest)) = Some rest"
proof -
  note pz = payload_then_zero [OF assms(2,3)]
  have "length [] + length (decoded_of_blocks bs) \<le> m"
    using assms(4) by (simp add: pz)
  from decoder_inverts_blocks [OF assms(1,2,3) this, of 0 rest]
  show ?thesis
    by (simp add: read_escaped_frame_def pz frame_payload_def)
qed

end
